theory Spec2Isabelle
  imports Complex_Main
begin

section \<open>The static tables of \<open>main.py\<close>\<close>

text \<open>
  The script builds one Pyomo model of an AC optimal power flow problem from three
  dictionaries and hands it to a solver. Python floats are read as exact reals here:
  rounding is not modelled. Bus identifiers are Python integers.
\<close>

type_synonym bus = int

datatype error = KeyError | ZeroDivisionError

text \<open>\<open>model.i\<close> and its alias \<open>model.j\<close> (lines 8-9), and the base power (line 13).\<close>

definition buses :: "bus list" where
  "buses = [1, 2, 3, 4, 5]"

definition Sbase :: real where
  "Sbase = 100"

text \<open>
  The rows of the three tables. The generator's cost coefficient \<open>'b'\<close> is the field
  \<open>gen_b\<close>; the line's \<open>'r'\<close>, \<open>'x'\<close>, \<open>'b'\<close> are \<open>ln_r\<close>, \<open>ln_x\<close>, \<open>ln_b\<close>.
\<close>

record gen_row =
  pmax :: real
  pmin :: real
  Qmax :: real
  Qmin :: real
  gen_b :: real

record demand_row =
  Pd :: real
  Qd :: real

record line_row =
  ln_r :: real
  ln_x :: real
  ln_b :: real
  limit :: real

text \<open>
  A Python dictionary keeps its keys in insertion order and has no duplicate key: it is an
  association list, read with \<open>map_of\<close>.
\<close>

type_synonym gen_table = "(bus \<times> gen_row) list"
type_synonym demand_table = "(bus \<times> demand_row) list"
type_synonym line_table = "((bus \<times> bus) \<times> line_row) list"

definition GenD :: gen_table where
  "GenD =
    [(1, \<lparr>pmax = 210, pmin = 0, Qmax = 157.5, Qmin = - 157.5, gen_b = 3\<rparr>),
     (3, \<lparr>pmax = 520, pmin = 0, Qmax = 390, Qmin = - 390, gen_b = 5\<rparr>),
     (4, \<lparr>pmax = 200, pmin = 0, Qmax = 150, Qmin = - 150, gen_b = 2\<rparr>),
     (5, \<lparr>pmax = 600, pmin = 0, Qmax = 450, Qmin = - 450, gen_b = 1\<rparr>)]"

definition BD :: demand_table where
  "BD =
    [(1, \<lparr>Pd = 100, Qd = 0\<rparr>),
     (2, \<lparr>Pd = 300, Qd = 98.61\<rparr>),
     (3, \<lparr>Pd = 300, Qd = 98.61\<rparr>),
     (4, \<lparr>Pd = 400, Qd = 131.47\<rparr>),
     (5, \<lparr>Pd = 500, Qd = 0\<rparr>)]"

definition LN :: line_table where
  "LN =
    [((1, 2), \<lparr>ln_r = 0.00281, ln_x = 0.0281, ln_b = 0.00712, limit = 400\<rparr>),
     ((1, 3), \<lparr>ln_r = 0.00304, ln_x = 0.0304, ln_b = 0.00658, limit = 400\<rparr>),
     ((1, 5), \<lparr>ln_r = 0.00064, ln_x = 0.0064, ln_b = 0.03126, limit = 400\<rparr>),
     ((2, 3), \<lparr>ln_r = 0.00108, ln_x = 0.0108, ln_b = 0.01852, limit = 400\<rparr>),
     ((3, 4), \<lparr>ln_r = 0.00297, ln_x = 0.0297, ln_b = 0.00674, limit = 400\<rparr>),
     ((4, 5), \<lparr>ln_r = 0.00297, ln_x = 0.0297, ln_b = 0.00674, limit = 240\<rparr>)]"

text \<open>Indexing a dictionary with a key it does not hold raises \<open>KeyError\<close>.\<close>

definition getitem :: "('k \<times> 'v) list \<Rightarrow> 'k \<Rightarrow> error + 'v" where
  "getitem d k = (case map_of d k of None \<Rightarrow> Inl KeyError | Some v \<Rightarrow> Inr v)"

section \<open>Derived line quantities (lines 43-53)\<close>

text \<open>
  \<open>bij\<close> divides by the reactance of every line, so a zero reactance raises
  \<open>ZeroDivisionError\<close> while the comprehension runs.
\<close>

fun compute_bij :: "line_table \<Rightarrow> error + ((bus \<times> bus) \<times> real) list" where
  "compute_bij [] = Inr []"
| "compute_bij ((k, l) # rest) =
     (if ln_x l = 0 then Inl ZeroDivisionError
      else (case compute_bij rest of
              Inl e \<Rightarrow> Inl e
            | Inr t \<Rightarrow> Inr ((k, 1 / ln_x l) # t)))"

definition z_of :: "line_row \<Rightarrow> real" where
  "z_of l = sqrt ((ln_x l)\<^sup>2 + (ln_r l)\<^sup>2)"

definition th_of :: "line_row \<Rightarrow> real" where
  "th_of l = (if ln_r l \<noteq> 0 then arctan (ln_x l / ln_r l) else pi / 2)"

definition compute_z :: "line_table \<Rightarrow> ((bus \<times> bus) \<times> real) list" where
  "compute_z L = map (\<lambda>(k, l). (k, z_of l)) L"

definition compute_th :: "line_table \<Rightarrow> ((bus \<times> bus) \<times> real) list" where
  "compute_th L = map (\<lambda>(k, l). (k, th_of l)) L"

text \<open>\<open>cx\<close> has an entry for every ordered pair of buses; \<open>cx.get(k, 0)\<close> reads it.\<close>

definition compute_cx :: "line_table \<Rightarrow> ((bus \<times> bus) \<times> nat) list" where
  "compute_cx L =
     concat (map (\<lambda>i. map (\<lambda>j. ((i, j), if (i, j) \<in> set (map fst L) then 1 else 0)) buses) buses)"

definition cx_get :: "((bus \<times> bus) \<times> nat) list \<Rightarrow> bus \<times> bus \<Rightarrow> nat" where
  "cx_get cx k = (case map_of cx k of None \<Rightarrow> 0 | Some c \<Rightarrow> c)"

section \<open>Variables and their bounds (lines 56-79)\<close>

datatype var = OF | Pij bus bus | Qij bus bus | Pg bus | Qg bus | Va bus | V bus

text \<open>
  What Pyomo keeps for one scalar variable: lower bound, upper bound and current value,
  each possibly absent. The script never fixes a variable.
\<close>

record vardata =
  lb :: "real option"
  ub :: "real option"
  val :: "real option"

type_synonym varmap = "var \<Rightarrow> vardata option"

definition new_var :: vardata where
  "new_var = \<lparr>lb = None, ub = None, val = None\<rparr>"

text \<open>A variable without a value whose two bounds are set.\<close>

definition with_bounds :: "real \<Rightarrow> real \<Rightarrow> vardata" where
  "with_bounds l u = \<lparr>lb = Some l, ub = Some u, val = None\<rparr>"

fun declared :: "var \<Rightarrow> bool" where
  "declared OF = True"
| "declared (Pij i j) = (i \<in> set buses \<and> j \<in> set buses)"
| "declared (Qij i j) = (i \<in> set buses \<and> j \<in> set buses)"
| "declared (Pg i) = (i \<in> set buses)"
| "declared (Qg i) = (i \<in> set buses)"
| "declared (Va i) = (i \<in> set buses)"
| "declared (V i) = (i \<in> set buses)"

definition declare_vars :: varmap where
  "declare_vars v = (if declared v then Some new_var else None)"

text \<open>
  \<open>model.X[k].setlb(c)\<close>: looking up an index outside the component's index set raises
  \<open>KeyError\<close>.
\<close>

definition setlb :: "var \<Rightarrow> real \<Rightarrow> varmap \<Rightarrow> error + varmap" where
  "setlb v c vs = (case vs v of None \<Rightarrow> Inl KeyError | Some d \<Rightarrow> Inr (vs(v \<mapsto> d\<lparr>lb := Some c\<rparr>)))"

definition setub :: "var \<Rightarrow> real \<Rightarrow> varmap \<Rightarrow> error + varmap" where
  "setub v c vs = (case vs v of None \<Rightarrow> Inl KeyError | Some d \<Rightarrow> Inr (vs(v \<mapsto> d\<lparr>ub := Some c\<rparr>)))"

definition set_value :: "var \<Rightarrow> real \<Rightarrow> varmap \<Rightarrow> error + varmap" where
  "set_value v c vs = (case vs v of None \<Rightarrow> Inl KeyError | Some d \<Rightarrow> Inr (vs(v \<mapsto> d\<lparr>val := Some c\<rparr>)))"

text \<open>The loop over \<open>GenD\<close> (lines 65-69); \<open>GenD[i]\<close> is the row stored under \<open>i\<close>.\<close>

fun gen_bounds :: "gen_table \<Rightarrow> varmap \<Rightarrow> error + varmap" where
  "gen_bounds [] vs = Inr vs"
| "gen_bounds ((i, g) # rest) vs =
     (case setlb (Pg i) (pmin g / Sbase) vs of Inl e \<Rightarrow> Inl e | Inr vs1 \<Rightarrow>
     (case setub (Pg i) (pmax g / Sbase) vs1 of Inl e \<Rightarrow> Inl e | Inr vs2 \<Rightarrow>
     (case setlb (Qg i) (Qmin g / Sbase) vs2 of Inl e \<Rightarrow> Inl e | Inr vs3 \<Rightarrow>
     (case setub (Qg i) (Qmax g / Sbase) vs3 of Inl e \<Rightarrow> Inl e | Inr vs4 \<Rightarrow>
      gen_bounds rest vs4))))"

text \<open>
  \<open>model.Va.setub\<close> and \<open>model.Va.setlb\<close> on the indexed variable (lines 72-73) set the
  bound of every \<open>Va[i]\<close>.
\<close>

definition Va_bounds :: "varmap \<Rightarrow> varmap" where
  "Va_bounds vs =
     (\<lambda>v. case v of
        Va i \<Rightarrow> map_option (\<lambda>d. d\<lparr>ub := Some (pi / 2), lb := Some (- pi / 2)\<rparr>) (vs v)
      | _ \<Rightarrow> vs v)"

text \<open>The loop over \<open>LN.keys()\<close> (lines 76-79): only \<open>Pij\<close> receives bounds.\<close>

fun flow_bounds :: "line_table \<Rightarrow> varmap \<Rightarrow> error + varmap" where
  "flow_bounds [] vs = Inr vs"
| "flow_bounds (((i, j), l) # rest) vs =
     (case setub (Pij i j) (limit l / Sbase) vs of Inl e \<Rightarrow> Inl e | Inr vs1 \<Rightarrow>
     (case setlb (Pij i j) (- limit l / Sbase) vs1 of Inl e \<Rightarrow> Inl e | Inr vs2 \<Rightarrow>
      flow_bounds rest vs2))"

section \<open>Expressions and constraints (lines 82-122)\<close>

text \<open>
  A Pyomo expression is a tree over variables and numbers. \<open>pyo.cos\<close> and \<open>pyo.sin\<close> of a
  Python float are floats again, hence \<open>Num\<close> nodes; applied to an expression they build a
  \<open>Cos\<close> or \<open>Sin\<close> node.
\<close>

datatype expr =
  Num real
| Ref var
| Add expr expr
| Sub expr expr
| Mul expr expr
| Div expr expr
| Pow expr nat
| Cos expr
| Sin expr

datatype constraint = Eq expr expr

datatype sense = minimize | maximize

text \<open>Python's \<open>sum\<close> starts from \<open>0\<close> and adds the items from left to right.\<close>

definition py_sum :: "expr list \<Rightarrow> expr" where
  "py_sum es = foldl Add (Num 0) es"

text \<open>
  In the rules below \<open>i\<close> and \<open>j\<close> come from \<open>model.i\<close> and \<open>model.j\<close>, over which every
  component is declared, so \<open>model.V[i]\<close> and the like are plain references. The dictionary
  reads \<open>th[(i, j)]\<close> and \<open>z[(i, j)]\<close> can raise, and so can the division of an expression by
  a zero constant.
\<close>

definition flow_expr ::
    "(real \<Rightarrow> real) \<Rightarrow> (expr \<Rightarrow> expr) \<Rightarrow> bus \<Rightarrow> bus \<Rightarrow> real \<Rightarrow> real \<Rightarrow> expr" where
  "flow_expr f F i j t zz =
     Div (Sub (Mul (Pow (Ref (V i)) 2) (Num (f t)))
              (Mul (Mul (Ref (V i)) (Ref (V j)))
                   (F (Add (Sub (Ref (Va i)) (Ref (Va j))) (Num t)))))
         (Num zz)"

definition flow_rule ::
    "(bus \<Rightarrow> bus \<Rightarrow> var) \<Rightarrow> (real \<Rightarrow> real) \<Rightarrow> (expr \<Rightarrow> expr) \<Rightarrow>
     ((bus \<times> bus) \<times> nat) list \<Rightarrow> ((bus \<times> bus) \<times> real) list \<Rightarrow> ((bus \<times> bus) \<times> real) list \<Rightarrow>
     bus \<Rightarrow> bus \<Rightarrow> error + constraint option" where
  "flow_rule X f F cx th z i j =
     (if cx_get cx (i, j) = 1 then
        (case getitem th (i, j) of Inl e \<Rightarrow> Inl e | Inr t \<Rightarrow>
        (case getitem z (i, j) of Inl e \<Rightarrow> Inl e | Inr zz \<Rightarrow>
           if zz = 0 then Inl ZeroDivisionError
           else Inr (Some (Eq (Ref (X i j)) (flow_expr f F i j t zz)))))
      else Inr None)"

text \<open>\<open>eq1_rule\<close> and \<open>eq2_rule\<close> differ in the flow variable and in the trigonometric function.\<close>

definition eq1_rule ::
    "((bus \<times> bus) \<times> nat) list \<Rightarrow> ((bus \<times> bus) \<times> real) list \<Rightarrow> ((bus \<times> bus) \<times> real) list \<Rightarrow>
     bus \<Rightarrow> bus \<Rightarrow> error + constraint option" where
  "eq1_rule = flow_rule Pij cos Cos"

definition eq2_rule ::
    "((bus \<times> bus) \<times> nat) list \<Rightarrow> ((bus \<times> bus) \<times> real) list \<Rightarrow> ((bus \<times> bus) \<times> real) list \<Rightarrow>
     bus \<Rightarrow> bus \<Rightarrow> error + constraint option" where
  "eq2_rule = flow_rule Qij sin Sin"

text \<open>
  \<open>eq3_rule\<close> and \<open>eq4_rule\<close>: \<open>BD[i]\<close> is read only under \<open>i in BD\<close>, and \<open>Sbase\<close> is the
  non-zero constant, so these rules cannot raise.
\<close>

definition inflow :: "(bus \<Rightarrow> bus \<Rightarrow> var) \<Rightarrow> ((bus \<times> bus) \<times> nat) list \<Rightarrow> bus \<Rightarrow> expr" where
  "inflow X cx i = py_sum (map (\<lambda>j. Ref (X j i)) (filter (\<lambda>j. cx_get cx (j, i) = 1) buses))"

definition eq3_rule :: "demand_table \<Rightarrow> ((bus \<times> bus) \<times> nat) list \<Rightarrow> bus \<Rightarrow> constraint option" where
  "eq3_rule B cx i =
     (case map_of B i of
        None \<Rightarrow> None
      | Some d \<Rightarrow> Some (Eq (Sub (Ref (Pg i)) (Num (Pd d / Sbase))) (inflow Pij cx i)))"

definition eq4_rule :: "demand_table \<Rightarrow> ((bus \<times> bus) \<times> nat) list \<Rightarrow> bus \<Rightarrow> constraint option" where
  "eq4_rule B cx i =
     (case map_of B i of
        None \<Rightarrow> None
      | Some d \<Rightarrow> Some (Eq (Sub (Ref (Qg i)) (Num (Qd d / Sbase))) (inflow Qij cx i)))"

text \<open>
  \<open>pyo.Constraint(index sets, rule=...)\<close> calls the rule at every index in order and stores
  what it returns, unless that is \<open>Constraint.Skip\<close> (here \<open>None\<close>).
\<close>

fun Constraint :: "('k \<Rightarrow> error + constraint option) \<Rightarrow> 'k list \<Rightarrow> ('k \<rightharpoonup> constraint) \<Rightarrow>
    error + ('k \<rightharpoonup> constraint)" where
  "Constraint rule [] acc = Inr acc"
| "Constraint rule (k # ks) acc =
     (case rule k of
        Inl e \<Rightarrow> Inl e
      | Inr None \<Rightarrow> Constraint rule ks acc
      | Inr (Some c) \<Rightarrow> Constraint rule ks (acc(k \<mapsto> c)))"

definition bus_pairs :: "(bus \<times> bus) list" where
  "bus_pairs = concat (map (\<lambda>i. map (\<lambda>j. (i, j)) buses) buses)"

text \<open>The objective (lines 113-122); \<open>model.Pg[i]\<close> is indexed by a key of \<open>GenD\<close> here.\<close>

definition cost_term :: "bus \<Rightarrow> gen_row \<Rightarrow> expr" where
  "cost_term i g =
     Add (Add (Mul (Mul (Ref (Pg i)) (Num (gen_b g))) (Num Sbase))
              (Mul (Mul (Mul (Mul (Ref (Pg i)) (Ref (Pg i))) (Num (gen_b g))) (Num Sbase)) (Num Sbase)))
         (Num (gen_b g))"

fun cost_terms :: "gen_table \<Rightarrow> varmap \<Rightarrow> error + expr list" where
  "cost_terms [] vs = Inr []"
| "cost_terms ((i, g) # rest) vs =
     (case vs (Pg i) of
        None \<Rightarrow> Inl KeyError
      | Some d \<Rightarrow> (case cost_terms rest vs of Inl e \<Rightarrow> Inl e | Inr ts \<Rightarrow> Inr (cost_term i g # ts)))"

definition objective_rule :: "gen_table \<Rightarrow> varmap \<Rightarrow> error + expr" where
  "objective_rule G vs = (case cost_terms G vs of Inl e \<Rightarrow> Inl e | Inr ts \<Rightarrow> Inr (py_sum ts))"

section \<open>The model builder\<close>

record model =
  vars :: varmap
  eq1 :: "(bus \<times> bus) \<rightharpoonup> constraint"
  eq2 :: "(bus \<times> bus) \<rightharpoonup> constraint"
  eq3 :: "bus \<rightharpoonup> constraint"
  eq4 :: "bus \<rightharpoonup> constraint"
  objective :: "(expr \<times> sense) option"

text \<open>
  Lines 43-79: the derived tables, the variables and their bounds. No constraint exists
  yet when this stage ends or fails.
\<close>

definition build_vars :: "gen_table \<Rightarrow> line_table \<Rightarrow> error + varmap" where
  "build_vars G L =
     (case compute_bij L of Inl e \<Rightarrow> Inl e | Inr bij_table \<Rightarrow>
     (case gen_bounds G declare_vars of Inl e \<Rightarrow> Inl e | Inr vs1 \<Rightarrow>
      flow_bounds L (Va_bounds vs1)))"

text \<open>Lines 82-126: the four constraint blocks, the objective and the two initial values.\<close>

definition build_constraints :: "gen_table \<Rightarrow> demand_table \<Rightarrow> line_table \<Rightarrow> varmap \<Rightarrow> error + model" where
  "build_constraints G B L vs =
     (let cx = compute_cx L; th = compute_th L; z = compute_z L in
      case Constraint (\<lambda>(i, j). eq1_rule cx th z i j) bus_pairs Map.empty of Inl e \<Rightarrow> Inl e | Inr c1 \<Rightarrow>
     (case Constraint (\<lambda>(i, j). eq2_rule cx th z i j) bus_pairs Map.empty of Inl e \<Rightarrow> Inl e | Inr c2 \<Rightarrow>
     (case Constraint (\<lambda>i. Inr (eq3_rule B cx i)) buses Map.empty of Inl e \<Rightarrow> Inl e | Inr c3 \<Rightarrow>
     (case Constraint (\<lambda>i. Inr (eq4_rule B cx i)) buses Map.empty of Inl e \<Rightarrow> Inl e | Inr c4 \<Rightarrow>
     (case objective_rule G vs of Inl e \<Rightarrow> Inl e | Inr ob \<Rightarrow>
     (case set_value (V 1) 1.0 vs of Inl e \<Rightarrow> Inl e | Inr vs1 \<Rightarrow>
     (case set_value (Va 1) 0 vs1 of Inl e \<Rightarrow> Inl e | Inr vs2 \<Rightarrow>
        Inr \<lparr>vars = vs2, eq1 = c1, eq2 = c2, eq3 = c3, eq4 = c4,
             objective = Some (ob, minimize)\<rparr>)))))))"

definition build :: "gen_table \<Rightarrow> demand_table \<Rightarrow> line_table \<Rightarrow> error + model" where
  "build G B L =
     (case build_vars G L of Inl e \<Rightarrow> Inl e | Inr vs \<Rightarrow> build_constraints G B L vs)"

section \<open>What the model means\<close>

text \<open>
  The value of an expression at a point; a division by zero has no value. A point is
  feasible when every variable of the model lies within its bounds and every constraint
  holds.
\<close>

fun eval :: "(var \<Rightarrow> real) \<Rightarrow> expr \<Rightarrow> real option" where
  "eval p (Num c) = Some c"
| "eval p (Ref v) = Some (p v)"
| "eval p (Add a b) = (case (eval p a, eval p b) of (Some x, Some y) \<Rightarrow> Some (x + y) | _ \<Rightarrow> None)"
| "eval p (Sub a b) = (case (eval p a, eval p b) of (Some x, Some y) \<Rightarrow> Some (x - y) | _ \<Rightarrow> None)"
| "eval p (Mul a b) = (case (eval p a, eval p b) of (Some x, Some y) \<Rightarrow> Some (x * y) | _ \<Rightarrow> None)"
| "eval p (Div a b) =
     (case (eval p a, eval p b) of
        (Some x, Some y) \<Rightarrow> if y = 0 then None else Some (x / y)
      | _ \<Rightarrow> None)"
| "eval p (Pow a n) = map_option (\<lambda>x. x ^ n) (eval p a)"
| "eval p (Cos a) = map_option cos (eval p a)"
| "eval p (Sin a) = map_option sin (eval p a)"

fun holds :: "(var \<Rightarrow> real) \<Rightarrow> constraint \<Rightarrow> bool" where
  "holds p (Eq a b) = (case (eval p a, eval p b) of (Some x, Some y) \<Rightarrow> x = y | _ \<Rightarrow> False)"

definition in_bounds :: "vardata \<Rightarrow> real \<Rightarrow> bool" where
  "in_bounds d a =
     ((case lb d of None \<Rightarrow> True | Some l \<Rightarrow> l \<le> a) \<and> (case ub d of None \<Rightarrow> True | Some u \<Rightarrow> a \<le> u))"

definition feasible :: "model \<Rightarrow> (var \<Rightarrow> real) \<Rightarrow> bool" where
  "feasible m p =
     ((\<forall>v d. vars m v = Some d \<longrightarrow> in_bounds d (p v)) \<and>
      (\<forall>k c. eq1 m k = Some c \<longrightarrow> holds p c) \<and>
      (\<forall>k c. eq2 m k = Some c \<longrightarrow> holds p c) \<and>
      (\<forall>k c. eq3 m k = Some c \<longrightarrow> holds p c) \<and>
      (\<forall>k c. eq4 m k = Some c \<longrightarrow> holds p c))"

fun vars_of :: "expr \<Rightarrow> var set" where
  "vars_of (Num c) = {}"
| "vars_of (Ref v) = {v}"
| "vars_of (Add a b) = vars_of a \<union> vars_of b"
| "vars_of (Sub a b) = vars_of a \<union> vars_of b"
| "vars_of (Mul a b) = vars_of a \<union> vars_of b"
| "vars_of (Div a b) = vars_of a \<union> vars_of b"
| "vars_of (Pow a n) = vars_of a"
| "vars_of (Cos a) = vars_of a"
| "vars_of (Sin a) = vars_of a"

section \<open>Reporting (lines 133-164)\<close>

text \<open>
  The solver call is outside the script: what comes back is a termination condition, one
  of the members of Pyomo's enumeration, and the variables of the model with whatever
  values were loaded into them.
\<close>

datatype termination_condition =
  unknown | maxTimeLimit | maxIterations | minFunctionValue | minStepLength
| globallyOptimal | locallyOptimal | feasibleTC | optimal | maxEvaluations | other
| unbounded | infeasible | infeasibleOrUnbounded | invalidProblem
| intermediateNonInteger | noSolution | solverFailure | internalSolverError
| errorTC | userInterrupt | resourceInterrupt | licensingProblems

text \<open>
  A printed line is the sequence of its pieces: literal text, and the values that Python
  formats into it (a bus number, a float, the termination condition). How Python renders
  a float is left open. \<open>print(a, b)\<close> puts one blank between its arguments.
\<close>

datatype piece = Str string | IntV int | FloatV real | Cond termination_condition

type_synonym line = "piece list"

definition status_line :: "termination_condition \<Rightarrow> line" where
  "status_line tc =
     (if tc = optimal then [Str ''Model solved successfully!'']
      else [Str ''Model could not be solved. Termination condition:'', Str '' '', Cond tc])"

definition pg_line_bare :: "bus \<Rightarrow> real \<Rightarrow> line" where
  "pg_line_bare i v = [Str ''Generator '', IntV i, Str '': Pg = '', FloatV (v * Sbase)]"

definition va_line :: "bus \<Rightarrow> real \<Rightarrow> line" where
  "va_line i v = [Str ''Bus '', IntV i, Str '': Va = '', FloatV v]"

definition pg_line :: "bus \<Rightarrow> real \<Rightarrow> line" where
  "pg_line i v = [Str ''Generator '', IntV i, Str '': Pg = '', FloatV (v * Sbase), Str '' MW'']"

definition qg_line :: "bus \<Rightarrow> real \<Rightarrow> line" where
  "qg_line i v = [Str ''Generator '', IntV i, Str '': Qg = '', FloatV (v * Sbase), Str '' MVar'']"

definition pg_header :: line where
  "pg_header = [Str ''Active Power Output (Pg) in MW:'']"

definition qg_header :: line where
  "qg_header = [Str ''Reactive Power Output (Qg) in MVar:'']"

text \<open>
  One reporting loop: for every bus in order, print the line of the variable if it has a
  value. Reading a variable that the model does not have raises \<open>KeyError\<close>.
\<close>

fun print_loop ::
    "(bus \<Rightarrow> var) \<Rightarrow> (bus \<Rightarrow> real \<Rightarrow> line) \<Rightarrow> varmap \<Rightarrow> bus list \<Rightarrow> line list \<Rightarrow> error + line list" where
  "print_loop X fmt vs [] out = Inr out"
| "print_loop X fmt vs (i # rest) out =
     (case vs (X i) of
        None \<Rightarrow> Inl KeyError
      | Some d \<Rightarrow>
          (case val d of
             None \<Rightarrow> print_loop X fmt vs rest out
           | Some v \<Rightarrow> print_loop X fmt vs rest (out @ [fmt i v])))"

definition report :: "termination_condition \<Rightarrow> varmap \<Rightarrow> error + line list" where
  "report tc vs =
     (case print_loop Pg pg_line_bare vs buses [status_line tc] of Inl e \<Rightarrow> Inl e | Inr out1 \<Rightarrow>
     (case print_loop Va va_line vs buses out1 of Inl e \<Rightarrow> Inl e | Inr out2 \<Rightarrow>
     (case print_loop Pg pg_line vs buses (out2 @ [pg_header]) of Inl e \<Rightarrow> Inl e | Inr out3 \<Rightarrow>
      print_loop Qg qg_line vs buses (out3 @ [qg_header]))))"

text \<open>
  The lines that one reporting loop adds: for each bus in order, the line of its variable
  when the variable has a value, and nothing otherwise.
\<close>

definition value_of :: "varmap \<Rightarrow> var \<Rightarrow> real option" where
  "value_of vs v = (case vs v of None \<Rightarrow> None | Some d \<Rightarrow> val d)"

definition printed :: "(bus \<Rightarrow> var) \<Rightarrow> (bus \<Rightarrow> real \<Rightarrow> line) \<Rightarrow> varmap \<Rightarrow> bus list \<Rightarrow> line list" where
  "printed X fmt vs bs =
     concat (map (\<lambda>i. case value_of vs (X i) of None \<Rightarrow> [] | Some v \<Rightarrow> [fmt i v]) bs)"

text \<open>
  A point of the variable space at which the slack bus has neither magnitude \<open>1.0\<close> nor
  angle \<open>0\<close>: buses 1 and 2 have magnitude \<open>0\<close>, so that no power leaves them, and the
  only line that carries power is \<open>(3, 4)\<close>.
\<close>

fun free_slack_point :: "var \<Rightarrow> real" where
  "free_slack_point OF = 0"
| "free_slack_point (V i) = (if i = 3 then 0.0297 else if i = 4 \<or> i = 5 then 0.3 * sqrt 101 else 0)"
| "free_slack_point (Va i) = (if i = 1 then 1 else if i = 4 \<or> i = 5 then arctan 10 else 0)"
| "free_slack_point (Pij i j) = (if i = 3 \<and> j = 4 then 297 / 101000 - 3 else 0)"
| "free_slack_point (Qij i j) = (if i = 3 \<and> j = 4 then 297 / 10100 else 0)"
| "free_slack_point (Pg i) =
     (if i = 1 then 1 else if i = 2 \<or> i = 3 then 3 else if i = 4 then 1 + 297 / 101000
      else if i = 5 then 5 else 0)"
| "free_slack_point (Qg i) =
     (if i = 2 \<or> i = 3 then 0.9861 else if i = 4 then 1.3147 + 297 / 10100 else 0)"

section \<open>Properties of the variable stage\<close>

lemma setlb_Inr: "setlb v c vs = Inr vs' \<longleftrightarrow> (\<exists>d. vs v = Some d \<and> vs' = vs(v \<mapsto> d\<lparr>lb := Some c\<rparr>))"
  by (auto simp: setlb_def split: option.splits)

lemma setub_Inr: "setub v c vs = Inr vs' \<longleftrightarrow> (\<exists>d. vs v = Some d \<and> vs' = vs(v \<mapsto> d\<lparr>ub := Some c\<rparr>))"
  by (auto simp: setub_def split: option.splits)

lemma set_value_Inr: "set_value v c vs = Inr vs' \<longleftrightarrow> (\<exists>d. vs v = Some d \<and> vs' = vs(v \<mapsto> d\<lparr>val := Some c\<rparr>))"
  by (auto simp: set_value_def split: option.splits)

lemma setlb_Inl: "setlb v c vs = Inl e \<longleftrightarrow> vs v = None \<and> e = KeyError"
  by (auto simp: setlb_def split: option.splits)

lemma setub_Inl: "setub v c vs = Inl e \<longleftrightarrow> vs v = None \<and> e = KeyError"
  by (auto simp: setub_def split: option.splits)

lemma setlb_dom: "setlb v c vs = Inr vs' \<Longrightarrow> (vs' w = None) = (vs w = None)"
  by (auto simp: setlb_Inr split: if_splits)

lemma setub_dom: "setub v c vs = Inr vs' \<Longrightarrow> (vs' w = None) = (vs w = None)"
  by (auto simp: setub_Inr split: if_splits)

lemma setlb_total: "vs v \<noteq> None \<Longrightarrow> \<exists>vs'. setlb v c vs = Inr vs'"
  by (auto simp: setlb_def)

lemma setub_total: "vs v \<noteq> None \<Longrightarrow> \<exists>vs'. setub v c vs = Inr vs'"
  by (auto simp: setub_def)

lemma compute_bij_Inr: "(\<exists>t. compute_bij L = Inr t) \<longleftrightarrow> (\<forall>kl\<in>set L. ln_x (snd kl) \<noteq> 0)"
  by (induction L rule: compute_bij.induct) (auto split: sum.splits)

lemma gen_bounds_dom: "gen_bounds G vs = Inr vs' \<Longrightarrow> (vs' w = None) = (vs w = None)"
proof (induction G vs arbitrary: vs' rule: gen_bounds.induct)
  case (1 vs)
  then show ?case by simp
next
  case (2 i g rest vs)
  from "2.prems" obtain vs1 vs2 vs3 vs4 where
    s1: "setlb (Pg i) (pmin g / Sbase) vs = Inr vs1" and
    s2: "setub (Pg i) (pmax g / Sbase) vs1 = Inr vs2" and
    s3: "setlb (Qg i) (Qmin g / Sbase) vs2 = Inr vs3" and
    s4: "setub (Qg i) (Qmax g / Sbase) vs3 = Inr vs4" and
    r: "gen_bounds rest vs4 = Inr vs'"
    by (auto split: sum.splits)
  have "(vs' w = None) = (vs4 w = None)"
    using "2.IH" s1 s2 s3 s4 r by blast
  then show ?case
    using setlb_dom [OF s1] setub_dom [OF s2] setlb_dom [OF s3] setub_dom [OF s4] by simp
qed

lemma flow_bounds_dom: "flow_bounds L vs = Inr vs' \<Longrightarrow> (vs' w = None) = (vs w = None)"
proof (induction L vs arbitrary: vs' rule: flow_bounds.induct)
  case (1 vs)
  then show ?case by simp
next
  case (2 i j l rest vs)
  from "2.prems" obtain vs1 vs2 where
    s1: "setub (Pij i j) (limit l / Sbase) vs = Inr vs1" and
    s2: "setlb (Pij i j) (- limit l / Sbase) vs1 = Inr vs2" and
    r: "flow_bounds rest vs2 = Inr vs'"
    by (auto split: sum.splits)
  have "(vs' w = None) = (vs2 w = None)"
    using "2.IH" s1 s2 r by blast
  then show ?case
    using setub_dom [OF s1] setlb_dom [OF s2] by simp
qed

lemma Va_bounds_dom: "(Va_bounds vs w = None) = (vs w = None)"
  by (cases w) (auto simp: Va_bounds_def)

lemma flow_bounds_Inr_keys:
  "flow_bounds L vs = Inr vs' \<Longrightarrow> ((i, j), l) \<in> set L \<Longrightarrow> vs (Pij i j) \<noteq> None"
proof (induction L vs arbitrary: vs' rule: flow_bounds.induct)
  case (1 vs)
  then show ?case by simp
next
  case (2 i' j' l' rest vs)
  from "2.prems" obtain vs1 vs2 where
    s1: "setub (Pij i' j') (limit l' / Sbase) vs = Inr vs1" and
    s2: "setlb (Pij i' j') (- limit l' / Sbase) vs1 = Inr vs2" and
    r: "flow_bounds rest vs2 = Inr vs'"
    by (auto split: sum.splits)
  show ?case
  proof (cases "((i, j), l) \<in> set rest")
    case True
    then have "vs2 (Pij i j) \<noteq> None"
      using "2.IH" s1 s2 r by blast
    then show ?thesis
      using setub_dom [OF s1] setlb_dom [OF s2] by simp
  next
    case False
    then have "i = i' \<and> j = j'" using "2.prems" by simp
    then show ?thesis using s1 by (auto simp: setub_Inr)
  qed
qed

lemma gen_bounds_Inr_keys:
  "gen_bounds G vs = Inr vs' \<Longrightarrow> (i, g) \<in> set G \<Longrightarrow> vs (Pg i) \<noteq> None \<and> vs (Qg i) \<noteq> None"
proof (induction G vs arbitrary: vs' rule: gen_bounds.induct)
  case (1 vs)
  then show ?case by simp
next
  case (2 i' g' rest vs)
  from "2.prems" obtain vs1 vs2 vs3 vs4 where
    s1: "setlb (Pg i') (pmin g' / Sbase) vs = Inr vs1" and
    s2: "setub (Pg i') (pmax g' / Sbase) vs1 = Inr vs2" and
    s3: "setlb (Qg i') (Qmin g' / Sbase) vs2 = Inr vs3" and
    s4: "setub (Qg i') (Qmax g' / Sbase) vs3 = Inr vs4" and
    r: "gen_bounds rest vs4 = Inr vs'"
    by (auto split: sum.splits)
  note doms = setlb_dom [OF s1] setub_dom [OF s2] setlb_dom [OF s3] setub_dom [OF s4]
  show ?case
  proof (cases "(i, g) \<in> set rest")
    case True
    then have "vs4 (Pg i) \<noteq> None \<and> vs4 (Qg i) \<noteq> None"
      using "2.IH" s1 s2 s3 s4 r by blast
    then show ?thesis
      using doms by simp
  next
    case False
    then have "i = i'" using "2.prems" by simp
    moreover have "vs (Pg i') \<noteq> None" using s1 by (auto simp: setlb_Inr)
    moreover have "vs2 (Qg i') \<noteq> None" using s3 by (auto simp: setlb_Inr)
    ultimately show ?thesis using doms by simp
  qed
qed

lemma gen_bounds_total:
  "\<forall>ig\<in>set G. vs (Pg (fst ig)) \<noteq> None \<and> vs (Qg (fst ig)) \<noteq> None \<Longrightarrow> \<exists>vs'. gen_bounds G vs = Inr vs'"
proof (induction G vs rule: gen_bounds.induct)
  case (1 vs)
  then show ?case by simp
next
  case (2 i g rest vs)
  have p: "vs (Pg i) \<noteq> None" and q: "vs (Qg i) \<noteq> None"
    using "2.prems" by auto
  obtain vs1 where s1: "setlb (Pg i) (pmin g / Sbase) vs = Inr vs1"
    using setlb_total p by blast
  have "vs1 (Pg i) \<noteq> None"
    using setlb_dom [OF s1] p by simp
  then obtain vs2 where s2: "setub (Pg i) (pmax g / Sbase) vs1 = Inr vs2"
    using setub_total by blast
  have "vs2 (Qg i) \<noteq> None"
    using setlb_dom [OF s1] setub_dom [OF s2] q by simp
  then obtain vs3 where s3: "setlb (Qg i) (Qmin g / Sbase) vs2 = Inr vs3"
    using setlb_total by blast
  have "vs3 (Qg i) \<noteq> None"
    using setlb_dom [OF s3] \<open>vs2 (Qg i) \<noteq> None\<close> by simp
  then obtain vs4 where s4: "setub (Qg i) (Qmax g / Sbase) vs3 = Inr vs4"
    using setub_total by blast
  have "\<forall>ig\<in>set rest. vs4 (Pg (fst ig)) \<noteq> None \<and> vs4 (Qg (fst ig)) \<noteq> None"
    using "2.prems" setlb_dom [OF s1] setub_dom [OF s2] setlb_dom [OF s3] setub_dom [OF s4] by simp
  then obtain vs' where "gen_bounds rest vs4 = Inr vs'"
    using "2.IH" [OF s1 s2 s3 s4] by blast
  then show ?case
    using s1 s2 s3 s4 by simp
qed

lemma flow_bounds_total:
  "\<forall>kl\<in>set L. vs (Pij (fst (fst kl)) (snd (fst kl))) \<noteq> None \<Longrightarrow> \<exists>vs'. flow_bounds L vs = Inr vs'"
proof (induction L vs rule: flow_bounds.induct)
  case (1 vs)
  then show ?case by simp
next
  case (2 i j l rest vs)
  have p: "vs (Pij i j) \<noteq> None"
    using "2.prems" by auto
  obtain vs1 where s1: "setub (Pij i j) (limit l / Sbase) vs = Inr vs1"
    using setub_total p by blast
  have "vs1 (Pij i j) \<noteq> None"
    using setub_dom [OF s1] p by simp
  then obtain vs2 where s2: "setlb (Pij i j) (- limit l / Sbase) vs1 = Inr vs2"
    using setlb_total by blast
  have "\<forall>kl\<in>set rest. vs2 (Pij (fst (fst kl)) (snd (fst kl))) \<noteq> None"
    using "2.prems" setub_dom [OF s1] setlb_dom [OF s2] by simp
  then obtain vs' where "flow_bounds rest vs2 = Inr vs'"
    using "2.IH" [OF s1 s2] by blast
  then show ?case
    using s1 s2 by simp
qed

lemma gen_bounds_other:
  "gen_bounds G vs = Inr vs' \<Longrightarrow> v \<notin> Pg ` fst ` set G \<Longrightarrow> v \<notin> Qg ` fst ` set G \<Longrightarrow> vs' v = vs v"
proof (induction G vs arbitrary: vs' rule: gen_bounds.induct)
  case (1 vs)
  then show ?case by simp
next
  case (2 i g rest vs)
  from "2.prems" obtain vs1 vs2 vs3 vs4 where
    s1: "setlb (Pg i) (pmin g / Sbase) vs = Inr vs1" and
    s2: "setub (Pg i) (pmax g / Sbase) vs1 = Inr vs2" and
    s3: "setlb (Qg i) (Qmin g / Sbase) vs2 = Inr vs3" and
    s4: "setub (Qg i) (Qmax g / Sbase) vs3 = Inr vs4" and
    r: "gen_bounds rest vs4 = Inr vs'"
    by (auto split: sum.splits)
  have ne: "v \<noteq> Pg i" "v \<noteq> Qg i" and rest: "v \<notin> Pg ` fst ` set rest" "v \<notin> Qg ` fst ` set rest"
    using "2.prems" by auto
  have "vs' v = vs4 v"
    using "2.IH" [OF s1 s2 s3 s4 r rest] .
  moreover have "vs4 v = vs v"
    using s1 s2 s3 s4 ne by (auto simp: setlb_Inr setub_Inr)
  ultimately show ?case by simp
qed

lemma gen_bounds_Pg:
  "gen_bounds G vs = Inr vs' \<Longrightarrow> distinct (map fst G) \<Longrightarrow> (i, g) \<in> set G \<Longrightarrow>
   \<exists>d. vs (Pg i) = Some d \<and>
       vs' (Pg i) = Some (d\<lparr>lb := Some (pmin g / Sbase), ub := Some (pmax g / Sbase)\<rparr>)"
proof (induction G vs arbitrary: vs' rule: gen_bounds.induct)
  case (1 vs)
  then show ?case by simp
next
  case (2 i' g' rest vs)
  from "2.prems" obtain vs1 vs2 vs3 vs4 where
    s1: "setlb (Pg i') (pmin g' / Sbase) vs = Inr vs1" and
    s2: "setub (Pg i') (pmax g' / Sbase) vs1 = Inr vs2" and
    s3: "setlb (Qg i') (Qmin g' / Sbase) vs2 = Inr vs3" and
    s4: "setub (Qg i') (Qmax g' / Sbase) vs3 = Inr vs4" and
    r: "gen_bounds rest vs4 = Inr vs'"
    by (auto split: sum.splits)
  show ?case
  proof (cases "(i, g) \<in> set rest")
    case True
    then have "i \<noteq> i'" using "2.prems" by force
    then have "vs4 (Pg i) = vs (Pg i)"
      using s1 s2 s3 s4 by (auto simp: setlb_Inr setub_Inr)
    moreover have "\<exists>d. vs4 (Pg i) = Some d \<and>
       vs' (Pg i) = Some (d\<lparr>lb := Some (pmin g / Sbase), ub := Some (pmax g / Sbase)\<rparr>)"
      using "2.IH" [OF s1 s2 s3 s4 r _ True] "2.prems" by simp
    ultimately show ?thesis by simp
  next
    case False
    then have eq: "i = i'" "g = g'" using "2.prems" by auto
    have "Pg i' \<notin> Pg ` fst ` set rest" "Pg i' \<notin> Qg ` fst ` set rest"
      using "2.prems" by auto
    then have "vs' (Pg i') = vs4 (Pg i')"
      using gen_bounds_other [OF r] by blast
    moreover obtain d where "vs (Pg i') = Some d"
      "vs4 (Pg i') = Some (d\<lparr>lb := Some (pmin g' / Sbase), ub := Some (pmax g' / Sbase)\<rparr>)"
      using s1 s2 s3 s4 by (auto simp: setlb_Inr setub_Inr)
    ultimately show ?thesis using eq by simp
  qed
qed

lemma gen_bounds_Qg:
  "gen_bounds G vs = Inr vs' \<Longrightarrow> distinct (map fst G) \<Longrightarrow> (i, g) \<in> set G \<Longrightarrow>
   \<exists>d. vs (Qg i) = Some d \<and>
       vs' (Qg i) = Some (d\<lparr>lb := Some (Qmin g / Sbase), ub := Some (Qmax g / Sbase)\<rparr>)"
proof (induction G vs arbitrary: vs' rule: gen_bounds.induct)
  case (1 vs)
  then show ?case by simp
next
  case (2 i' g' rest vs)
  from "2.prems" obtain vs1 vs2 vs3 vs4 where
    s1: "setlb (Pg i') (pmin g' / Sbase) vs = Inr vs1" and
    s2: "setub (Pg i') (pmax g' / Sbase) vs1 = Inr vs2" and
    s3: "setlb (Qg i') (Qmin g' / Sbase) vs2 = Inr vs3" and
    s4: "setub (Qg i') (Qmax g' / Sbase) vs3 = Inr vs4" and
    r: "gen_bounds rest vs4 = Inr vs'"
    by (auto split: sum.splits)
  show ?case
  proof (cases "(i, g) \<in> set rest")
    case True
    then have "i \<noteq> i'" using "2.prems" by force
    then have "vs4 (Qg i) = vs (Qg i)"
      using s1 s2 s3 s4 by (auto simp: setlb_Inr setub_Inr)
    moreover have "\<exists>d. vs4 (Qg i) = Some d \<and>
       vs' (Qg i) = Some (d\<lparr>lb := Some (Qmin g / Sbase), ub := Some (Qmax g / Sbase)\<rparr>)"
      using "2.IH" [OF s1 s2 s3 s4 r _ True] "2.prems" by simp
    ultimately show ?thesis by simp
  next
    case False
    then have eq: "i = i'" "g = g'" using "2.prems" by auto
    have "Qg i' \<notin> Pg ` fst ` set rest" "Qg i' \<notin> Qg ` fst ` set rest"
      using "2.prems" by auto
    then have "vs' (Qg i') = vs4 (Qg i')"
      using gen_bounds_other [OF r] by blast
    moreover obtain d where "vs (Qg i') = Some d"
      "vs4 (Qg i') = Some (d\<lparr>lb := Some (Qmin g' / Sbase), ub := Some (Qmax g' / Sbase)\<rparr>)"
      using s1 s2 s3 s4 by (auto simp: setlb_Inr setub_Inr)
    ultimately show ?thesis using eq by simp
  qed
qed

lemma flow_bounds_other:
  "flow_bounds L vs = Inr vs' \<Longrightarrow> v \<notin> (\<lambda>k. Pij (fst k) (snd k)) ` fst ` set L \<Longrightarrow> vs' v = vs v"
proof (induction L vs arbitrary: vs' rule: flow_bounds.induct)
  case (1 vs)
  then show ?case by simp
next
  case (2 i j l rest vs)
  from "2.prems" obtain vs1 vs2 where
    s1: "setub (Pij i j) (limit l / Sbase) vs = Inr vs1" and
    s2: "setlb (Pij i j) (- limit l / Sbase) vs1 = Inr vs2" and
    r: "flow_bounds rest vs2 = Inr vs'"
    by (auto split: sum.splits)
  have ne: "v \<noteq> Pij i j" and rest: "v \<notin> (\<lambda>k. Pij (fst k) (snd k)) ` fst ` set rest"
    using "2.prems" by auto
  have "vs' v = vs2 v"
    using "2.IH" [OF s1 s2 r rest] .
  moreover have "vs2 v = vs v"
    using s1 s2 ne by (auto simp: setlb_Inr setub_Inr)
  ultimately show ?case by simp
qed

lemma flow_bounds_Pij:
  "flow_bounds L vs = Inr vs' \<Longrightarrow> distinct (map fst L) \<Longrightarrow> ((i, j), l) \<in> set L \<Longrightarrow>
   \<exists>d. vs (Pij i j) = Some d \<and>
       vs' (Pij i j) = Some (d\<lparr>ub := Some (limit l / Sbase), lb := Some (- limit l / Sbase)\<rparr>)"
proof (induction L vs arbitrary: vs' rule: flow_bounds.induct)
  case (1 vs)
  then show ?case by simp
next
  case (2 i' j' l' rest vs)
  from "2.prems" obtain vs1 vs2 where
    s1: "setub (Pij i' j') (limit l' / Sbase) vs = Inr vs1" and
    s2: "setlb (Pij i' j') (- limit l' / Sbase) vs1 = Inr vs2" and
    r: "flow_bounds rest vs2 = Inr vs'"
    by (auto split: sum.splits)
  show ?case
  proof (cases "((i, j), l) \<in> set rest")
    case True
    then have "(i, j) \<noteq> (i', j')" using "2.prems" by force
    then have "vs2 (Pij i j) = vs (Pij i j)"
      using s1 s2 by (auto simp: setlb_Inr setub_Inr)
    moreover have "\<exists>d. vs2 (Pij i j) = Some d \<and>
       vs' (Pij i j) = Some (d\<lparr>ub := Some (limit l / Sbase), lb := Some (- limit l / Sbase)\<rparr>)"
      using "2.IH" [OF s1 s2 r _ True] "2.prems" by simp
    ultimately show ?thesis by simp
  next
    case False
    then have eq: "i = i'" "j = j'" "l = l'" using "2.prems" by auto
    have "Pij i' j' \<notin> (\<lambda>k. Pij (fst k) (snd k)) ` fst ` set rest"
      using "2.prems" by force
    then have "vs' (Pij i' j') = vs2 (Pij i' j')"
      using flow_bounds_other [OF r] by blast
    moreover obtain d where "vs (Pij i' j') = Some d"
      "vs2 (Pij i' j') = Some (d\<lparr>ub := Some (limit l' / Sbase), lb := Some (- limit l' / Sbase)\<rparr>)"
      using s1 s2 by (auto simp: setlb_Inr setub_Inr)
    ultimately show ?thesis using eq by simp
  qed
qed

section \<open>Properties of the constraint stage\<close>

lemma Constraint_lookup:
  "Constraint rule ks acc = Inr m \<Longrightarrow>
   m k = (if k \<in> set ks then (case rule k of Inr (Some c) \<Rightarrow> Some c | _ \<Rightarrow> acc k) else acc k)"
proof (induction ks arbitrary: acc)
  case Nil
  then show ?case by simp
next
  case (Cons a ks)
  show ?case
  proof (cases "rule a")
    case (Inl e)
    then show ?thesis using Cons.prems by simp
  next
    case (Inr c)
    show ?thesis
    proof (cases c)
      case None
      then have "Constraint rule ks acc = Inr m"
        using Cons.prems Inr by simp
      from Cons.IH [OF this] show ?thesis
        using Inr None by auto
    next
      case (Some cc)
      then have "Constraint rule ks (acc(a \<mapsto> cc)) = Inr m"
        using Cons.prems Inr by simp
      from Cons.IH [OF this] show ?thesis
        using Inr Some by (auto split: sum.splits option.splits)
    qed
  qed
qed

lemma Constraint_total:
  "\<forall>k\<in>set ks. \<exists>c. rule k = Inr c \<Longrightarrow> \<exists>m. Constraint rule ks acc = Inr m"
proof (induction ks arbitrary: acc)
  case Nil
  then show ?case by simp
next
  case (Cons a ks)
  then obtain c where "rule a = Inr c" by auto
  then show ?case
    using Cons by (cases c) auto
qed

lemma Constraint_Inr_rule:
  "Constraint rule ks acc = Inr m \<Longrightarrow> k \<in> set ks \<Longrightarrow> \<exists>c. rule k = Inr c"
proof (induction ks arbitrary: acc)
  case Nil
  then show ?case by simp
next
  case (Cons a ks)
  then show ?case
    by (cases "rule a") (auto split: option.splits)
qed

lemma map_of_row:
  "map_of (map (\<lambda>j. ((i, j), f i j)) ys) (a, b) = (if a = i \<and> b \<in> set ys then Some (f i b) else None)"
  by (induction ys) auto

lemma map_of_grid:
  "map_of (concat (map (\<lambda>i. map (\<lambda>j. ((i, j), f i j)) ys) xs)) (a, b) =
     (if a \<in> set xs \<and> b \<in> set ys then Some (f a b) else None)"
  by (induction xs) (auto simp: map_of_row map_add_def split: option.splits)

lemma cx_get_compute_cx:
  "cx_get (compute_cx L) (i, j) =
     (if i \<in> set buses \<and> j \<in> set buses \<and> (i, j) \<in> fst ` set L then 1 else 0)"
  by (simp add: cx_get_def compute_cx_def map_of_grid)

lemma set_bus_pairs: "set bus_pairs = set buses \<times> set buses"
  by (auto simp: bus_pairs_def)

lemma getitem_compute_th:
  "getitem (compute_th L) k = (case map_of L k of None \<Rightarrow> Inl KeyError | Some l \<Rightarrow> Inr (th_of l))"
  by (simp add: getitem_def compute_th_def map_of_map split: option.splits)

lemma getitem_compute_z:
  "getitem (compute_z L) k = (case map_of L k of None \<Rightarrow> Inl KeyError | Some l \<Rightarrow> Inr (z_of l))"
  by (simp add: getitem_def compute_z_def map_of_map split: option.splits)

lemma z_of_zero: "z_of l = 0 \<longleftrightarrow> ln_x l = 0 \<and> ln_r l = 0"
  by (simp add: z_of_def real_sqrt_eq_zero_cancel_iff sum_power2_eq_zero_iff)

lemma z_of_pos: "ln_x l \<noteq> 0 \<Longrightarrow> 0 < z_of l"
  by (simp add: z_of_def sum_power2_gt_zero_iff)

lemma flow_rule_lines:
  "flow_rule X f F (compute_cx L) (compute_th L) (compute_z L) i j =
     (if i \<in> set buses \<and> j \<in> set buses then
        (case map_of L (i, j) of
           None \<Rightarrow> Inr None
         | Some l \<Rightarrow>
             if z_of l = 0 then Inl ZeroDivisionError
             else Inr (Some (Eq (Ref (X i j)) (flow_expr f F i j (th_of l) (z_of l)))))
      else Inr None)"
  by (auto simp: flow_rule_def cx_get_compute_cx getitem_compute_th getitem_compute_z
      map_of_eq_None_iff split: option.splits dest: map_of_SomeD intro: rev_image_eqI)

section \<open>When the builder succeeds, and what it builds\<close>

lemma declare_vars_None: "(declare_vars w = None) = (\<not> declared w)"
  by (simp add: declare_vars_def)

lemma build_vars_dom:
  assumes "build_vars G L = Inr vs"
  shows "(vs w = None) = (\<not> declared w)"
proof -
  from assms obtain vs1 where
    g: "gen_bounds G declare_vars = Inr vs1" and f: "flow_bounds L (Va_bounds vs1) = Inr vs"
    by (auto simp: build_vars_def split: sum.splits)
  show ?thesis
    using flow_bounds_dom [OF f, of w] gen_bounds_dom [OF g, of w]
    by (simp add: Va_bounds_dom declare_vars_None)
qed

lemma build_vars_Inr_iff:
  "(\<exists>vs. build_vars G L = Inr vs) \<longleftrightarrow>
     (\<forall>kl\<in>set L. ln_x (snd kl) \<noteq> 0) \<and>
     (\<forall>ig\<in>set G. fst ig \<in> set buses) \<and>
     (\<forall>kl\<in>set L. fst (fst kl) \<in> set buses \<and> snd (fst kl) \<in> set buses)"
proof
  assume "\<exists>vs. build_vars G L = Inr vs"
  then obtain vs t vs1 where
    b: "compute_bij L = Inr t" and
    g: "gen_bounds G declare_vars = Inr vs1" and f: "flow_bounds L (Va_bounds vs1) = Inr vs"
    by (auto simp: build_vars_def split: sum.splits)
  have "\<forall>kl\<in>set L. ln_x (snd kl) \<noteq> 0"
    using b compute_bij_Inr [of L] by blast
  moreover have "\<forall>ig\<in>set G. fst ig \<in> set buses"
  proof
    fix ig assume "ig \<in> set G"
    then have "(fst ig, snd ig) \<in> set G" by simp
    from gen_bounds_Inr_keys [OF g this] show "fst ig \<in> set buses"
      by (simp add: declare_vars_None)
  qed
  moreover have "\<forall>kl\<in>set L. fst (fst kl) \<in> set buses \<and> snd (fst kl) \<in> set buses"
  proof
    fix kl assume "kl \<in> set L"
    then have "((fst (fst kl), snd (fst kl)), snd kl) \<in> set L" by simp
    from flow_bounds_Inr_keys [OF f this] have "vs1 (Pij (fst (fst kl)) (snd (fst kl))) \<noteq> None"
      by (simp add: Va_bounds_dom)
    then show "fst (fst kl) \<in> set buses \<and> snd (fst kl) \<in> set buses"
      using gen_bounds_dom [OF g, of "Pij (fst (fst kl)) (snd (fst kl))"]
      by (simp add: declare_vars_None)
  qed
  ultimately show "(\<forall>kl\<in>set L. ln_x (snd kl) \<noteq> 0) \<and>
     (\<forall>ig\<in>set G. fst ig \<in> set buses) \<and>
     (\<forall>kl\<in>set L. fst (fst kl) \<in> set buses \<and> snd (fst kl) \<in> set buses)"
    by blast
next
  assume a: "(\<forall>kl\<in>set L. ln_x (snd kl) \<noteq> 0) \<and>
     (\<forall>ig\<in>set G. fst ig \<in> set buses) \<and>
     (\<forall>kl\<in>set L. fst (fst kl) \<in> set buses \<and> snd (fst kl) \<in> set buses)"
  then obtain t where b: "compute_bij L = Inr t"
    using compute_bij_Inr [of L] by blast
  have "\<forall>ig\<in>set G. declare_vars (Pg (fst ig)) \<noteq> None \<and> declare_vars (Qg (fst ig)) \<noteq> None"
    using a by (simp add: declare_vars_None)
  then obtain vs1 where g: "gen_bounds G declare_vars = Inr vs1"
    using gen_bounds_total by blast
  have "\<forall>kl\<in>set L. Va_bounds vs1 (Pij (fst (fst kl)) (snd (fst kl))) \<noteq> None"
    using a gen_bounds_dom [OF g] by (simp add: Va_bounds_dom declare_vars_None)
  then obtain vs where "flow_bounds L (Va_bounds vs1) = Inr vs"
    using flow_bounds_total by blast
  then show "\<exists>vs. build_vars G L = Inr vs"
    using b g by (simp add: build_vars_def)
qed

lemma cost_terms_Inr: "cost_terms G vs = Inr ts \<Longrightarrow> ts = map (\<lambda>(i, g). cost_term i g) G"
  by (induction G vs arbitrary: ts rule: cost_terms.induct) (auto split: option.splits sum.splits)

lemma cost_terms_total:
  "\<forall>ig\<in>set G. vs (Pg (fst ig)) \<noteq> None \<Longrightarrow> \<exists>ts. cost_terms G vs = Inr ts"
  by (induction G vs rule: cost_terms.induct) (auto split: option.splits sum.splits)

lemma build_constraints_InrD:
  assumes "build_constraints G B L vs = Inr m"
  obtains c1 c2 c3 c4 ts vs1 vs2 where
    "Constraint (\<lambda>(i, j). eq1_rule (compute_cx L) (compute_th L) (compute_z L) i j) bus_pairs Map.empty = Inr c1"
    "Constraint (\<lambda>(i, j). eq2_rule (compute_cx L) (compute_th L) (compute_z L) i j) bus_pairs Map.empty = Inr c2"
    "Constraint (\<lambda>i. Inr (eq3_rule B (compute_cx L) i)) buses Map.empty = Inr c3"
    "Constraint (\<lambda>i. Inr (eq4_rule B (compute_cx L) i)) buses Map.empty = Inr c4"
    "cost_terms G vs = Inr ts"
    "set_value (V 1) 1 vs = Inr vs1"
    "set_value (Va 1) 0 vs1 = Inr vs2"
    "m = \<lparr>vars = vs2, eq1 = c1, eq2 = c2, eq3 = c3, eq4 = c4, objective = Some (py_sum ts, minimize)\<rparr>"
  using assms unfolding build_constraints_def objective_rule_def
  by (auto simp: Let_def split: sum.splits)

lemma flow_built:
  assumes c: "Constraint (\<lambda>(i, j). flow_rule X f F (compute_cx L) (compute_th L) (compute_z L) i j)
                bus_pairs Map.empty = Inr c1"
  shows "c1 (i, j) =
     (if i \<in> set buses \<and> j \<in> set buses then
        (case map_of L (i, j) of
           None \<Rightarrow> None
         | Some l \<Rightarrow> Some (Eq (Ref (X i j)) (flow_expr f F i j (th_of l) (z_of l))))
      else None)"
proof (cases "i \<in> set buses \<and> j \<in> set buses")
  case False
  then show ?thesis
    using Constraint_lookup [OF c, of "(i, j)"] by (auto simp: set_bus_pairs)
next
  case True
  then have mem: "(i, j) \<in> set bus_pairs" by (simp add: set_bus_pairs)
  from Constraint_Inr_rule [OF c mem] obtain r where
    r: "flow_rule X f F (compute_cx L) (compute_th L) (compute_z L) i j = Inr r" by auto
  show ?thesis
    using Constraint_lookup [OF c, of "(i, j)"] mem True r
    by (auto simp: flow_rule_lines split: option.splits if_splits)
qed

lemma eq1_built:
  assumes "build_constraints G B L vs = Inr m"
  shows "eq1 m (i, j) =
     (if i \<in> set buses \<and> j \<in> set buses then
        (case map_of L (i, j) of
           None \<Rightarrow> None
         | Some l \<Rightarrow> Some (Eq (Ref (Pij i j)) (flow_expr cos Cos i j (th_of l) (z_of l))))
      else None)"
  using assms by (elim build_constraints_InrD) (simp add: eq1_rule_def flow_built)

lemma eq2_built:
  assumes "build_constraints G B L vs = Inr m"
  shows "eq2 m (i, j) =
     (if i \<in> set buses \<and> j \<in> set buses then
        (case map_of L (i, j) of
           None \<Rightarrow> None
         | Some l \<Rightarrow> Some (Eq (Ref (Qij i j)) (flow_expr sin Sin i j (th_of l) (z_of l))))
      else None)"
  using assms by (elim build_constraints_InrD) (simp add: eq2_rule_def flow_built)

lemma eq3_built:
  assumes "build_constraints G B L vs = Inr m"
  shows "eq3 m i = (if i \<in> set buses then eq3_rule B (compute_cx L) i else None)"
  using assms
  by (elim build_constraints_InrD) (auto dest!: Constraint_lookup [where k = i] split: option.splits)

lemma eq4_built:
  assumes "build_constraints G B L vs = Inr m"
  shows "eq4 m i = (if i \<in> set buses then eq4_rule B (compute_cx L) i else None)"
  using assms
  by (elim build_constraints_InrD) (auto dest!: Constraint_lookup [where k = i] split: option.splits)

lemma objective_built:
  assumes "build_constraints G B L vs = Inr m"
  shows "objective m = Some (py_sum (map (\<lambda>(i, g). cost_term i g) G), minimize)"
  using assms by (elim build_constraints_InrD) (auto dest: cost_terms_Inr)

lemma vars_built:
  assumes "build_constraints G B L vs = Inr m"
  shows "\<exists>d1 d2. vs (V 1) = Some d1 \<and> vs (Va 1) = Some d2 \<and>
           vars m = vs(V 1 \<mapsto> d1\<lparr>val := Some 1\<rparr>, Va 1 \<mapsto> d2\<lparr>val := Some 0\<rparr>)"
  using assms by (elim build_constraints_InrD) (auto simp: set_value_Inr)

lemma flow_rule_total:
  assumes "\<forall>kl\<in>set L. ln_x (snd kl) \<noteq> 0"
  shows "\<exists>c. flow_rule X f F (compute_cx L) (compute_th L) (compute_z L) i j = Inr c"
proof (cases "map_of L (i, j)")
  case None
  then show ?thesis by (simp add: flow_rule_lines)
next
  case (Some l)
  then have "((i, j), l) \<in> set L" by (rule map_of_SomeD)
  then have "ln_x l \<noteq> 0" using assms by force
  then have "z_of l \<noteq> 0" by (simp add: z_of_zero)
  then show ?thesis using Some by (simp add: flow_rule_lines)
qed

lemma build_constraints_total:
  assumes "build_vars G L = Inr vs"
  shows "\<exists>m. build_constraints G B L vs = Inr m"
proof -
  have ok: "(\<forall>kl\<in>set L. ln_x (snd kl) \<noteq> 0) \<and> (\<forall>ig\<in>set G. fst ig \<in> set buses)"
    using assms build_vars_Inr_iff [of G L] by blast
  have "\<forall>k\<in>set bus_pairs. \<exists>c.
          (\<lambda>(i, j). eq1_rule (compute_cx L) (compute_th L) (compute_z L) i j) k = Inr c"
    using flow_rule_total [of L Pij cos Cos] ok by (simp add: eq1_rule_def split_def)
  then obtain c1 where c1:
    "Constraint (\<lambda>(i, j). eq1_rule (compute_cx L) (compute_th L) (compute_z L) i j) bus_pairs Map.empty = Inr c1"
    using Constraint_total by blast
  have "\<forall>k\<in>set bus_pairs. \<exists>c.
          (\<lambda>(i, j). eq2_rule (compute_cx L) (compute_th L) (compute_z L) i j) k = Inr c"
    using flow_rule_total [of L Qij sin Sin] ok by (simp add: eq2_rule_def split_def)
  then obtain c2 where c2:
    "Constraint (\<lambda>(i, j). eq2_rule (compute_cx L) (compute_th L) (compute_z L) i j) bus_pairs Map.empty = Inr c2"
    using Constraint_total by blast
  obtain c3 where c3: "Constraint (\<lambda>i. Inr (eq3_rule B (compute_cx L) i)) buses Map.empty = Inr c3"
    using Constraint_total [of buses "\<lambda>i. Inr (eq3_rule B (compute_cx L) i)" Map.empty] by auto
  obtain c4 where c4: "Constraint (\<lambda>i. Inr (eq4_rule B (compute_cx L) i)) buses Map.empty = Inr c4"
    using Constraint_total [of buses "\<lambda>i. Inr (eq4_rule B (compute_cx L) i)" Map.empty] by auto
  have "\<forall>ig\<in>set G. vs (Pg (fst ig)) \<noteq> None"
    using ok build_vars_dom [OF assms] by simp
  then obtain ts where ts: "cost_terms G vs = Inr ts"
    using cost_terms_total by blast
  have "vs (V 1) \<noteq> None"
    using build_vars_dom [OF assms, of "V 1"] by (simp add: buses_def)
  then obtain d1 where d1: "vs (V 1) = Some d1" by auto
  have "vs (Va 1) \<noteq> None"
    using build_vars_dom [OF assms, of "Va 1"] by (simp add: buses_def)
  then obtain d2 where d2: "vs (Va 1) = Some d2" by auto
  show ?thesis
    using c1 c2 c3 c4 ts d1 d2
    by (simp add: build_constraints_def objective_rule_def set_value_def)
qed

lemma build_Inr_iff:
  "(\<exists>m. build G B L = Inr m) \<longleftrightarrow>
     (\<forall>kl\<in>set L. ln_x (snd kl) \<noteq> 0) \<and>
     (\<forall>ig\<in>set G. fst ig \<in> set buses) \<and>
     (\<forall>kl\<in>set L. fst (fst kl) \<in> set buses \<and> snd (fst kl) \<in> set buses)"
proof -
  have "(\<exists>m. build G B L = Inr m) \<longleftrightarrow> (\<exists>vs. build_vars G L = Inr vs)"
    using build_constraints_total [of G L _ B]
    by (auto simp: build_def split: sum.splits)
  then show ?thesis
    by (simp only: build_vars_Inr_iff)
qed

lemma build_InrD:
  assumes "build G B L = Inr m"
  obtains vs where "build_vars G L = Inr vs" "build_constraints G B L vs = Inr m"
  using assms by (auto simp: build_def split: sum.splits)

lemma tables_ok:
  "(\<forall>kl\<in>set LN. ln_x (snd kl) \<noteq> 0) \<and>
   (\<forall>ig\<in>set GenD. fst ig \<in> set buses) \<and>
   (\<forall>kl\<in>set LN. fst (fst kl) \<in> set buses \<and> snd (fst kl) \<in> set buses)"
  by (simp add: LN_def GenD_def buses_def)

lemma build_tables: "\<exists>m. build GenD BD LN = Inr m"
  using tables_ok by (simp only: build_Inr_iff)

lemma distinct_tables: "distinct (map fst GenD)" "distinct (map fst BD)" "distinct (map fst LN)"
  by (simp_all add: GenD_def BD_def LN_def)

lemma gen_bounds_value:
  assumes g: "gen_bounds G vs = Inr vs'" and d: "distinct (map fst G)"
  shows "vs' v =
     (case v of
        Pg i \<Rightarrow> (case map_of G i of
                  None \<Rightarrow> vs v
                | Some g \<Rightarrow> map_option (\<lambda>d. d\<lparr>lb := Some (pmin g / Sbase), ub := Some (pmax g / Sbase)\<rparr>) (vs v))
      | Qg i \<Rightarrow> (case map_of G i of
                  None \<Rightarrow> vs v
                | Some g \<Rightarrow> map_option (\<lambda>d. d\<lparr>lb := Some (Qmin g / Sbase), ub := Some (Qmax g / Sbase)\<rparr>) (vs v))
      | _ \<Rightarrow> vs v)"
proof (cases v)
  case (Pg i)
  show ?thesis
  proof (cases "map_of G i")
    case None
    then have "i \<notin> fst ` set G" by (simp add: map_of_eq_None_iff)
    then have "v \<notin> Pg ` fst ` set G" "v \<notin> Qg ` fst ` set G" using Pg by auto
    from gen_bounds_other [OF g this] show ?thesis using Pg None by simp
  next
    case (Some r)
    then have "(i, r) \<in> set G" by (rule map_of_SomeD)
    from gen_bounds_Pg [OF g d this] show ?thesis using Pg Some by auto
  qed
next
  case (Qg i)
  show ?thesis
  proof (cases "map_of G i")
    case None
    then have "i \<notin> fst ` set G" by (simp add: map_of_eq_None_iff)
    then have "v \<notin> Pg ` fst ` set G" "v \<notin> Qg ` fst ` set G" using Qg by auto
    from gen_bounds_other [OF g this] show ?thesis using Qg None by simp
  next
    case (Some r)
    then have "(i, r) \<in> set G" by (rule map_of_SomeD)
    from gen_bounds_Qg [OF g d this] show ?thesis using Qg Some by auto
  qed
qed (use gen_bounds_other [OF g, of v] in auto)

lemma flow_bounds_value:
  assumes f: "flow_bounds L vs = Inr vs'" and d: "distinct (map fst L)"
  shows "vs' v =
     (case v of
        Pij i j \<Rightarrow> (case map_of L (i, j) of
                  None \<Rightarrow> vs v
                | Some l \<Rightarrow> map_option (\<lambda>d. d\<lparr>ub := Some (limit l / Sbase), lb := Some (- limit l / Sbase)\<rparr>) (vs v))
      | _ \<Rightarrow> vs v)"
proof (cases v)
  case (Pij i j)
  show ?thesis
  proof (cases "map_of L (i, j)")
    case None
    then have "(i, j) \<notin> fst ` set L" by (simp add: map_of_eq_None_iff)
    then have "v \<notin> (\<lambda>k. Pij (fst k) (snd k)) ` fst ` set L" using Pij by force
    from flow_bounds_other [OF f this] show ?thesis using Pij None by simp
  next
    case (Some r)
    then have "((i, j), r) \<in> set L" by (rule map_of_SomeD)
    from flow_bounds_Pij [OF f d this] show ?thesis using Pij Some by auto
  qed
qed (use flow_bounds_other [OF f, of v] in auto)

lemma build_vars_value:
  assumes b: "build_vars G L = Inr vs" and dG: "distinct (map fst G)" and dL: "distinct (map fst L)"
  shows "vs v =
     (if \<not> declared v then None
      else Some (case v of
        Pg i \<Rightarrow> (case map_of G i of None \<Rightarrow> new_var | Some g \<Rightarrow> with_bounds (pmin g / Sbase) (pmax g / Sbase))
      | Qg i \<Rightarrow> (case map_of G i of None \<Rightarrow> new_var | Some g \<Rightarrow> with_bounds (Qmin g / Sbase) (Qmax g / Sbase))
      | Va i \<Rightarrow> with_bounds (- pi / 2) (pi / 2)
      | Pij i j \<Rightarrow> (case map_of L (i, j) of None \<Rightarrow> new_var | Some l \<Rightarrow> with_bounds (- limit l / Sbase) (limit l / Sbase))
      | _ \<Rightarrow> new_var))"
proof -
  from b obtain vs1 where
    g: "gen_bounds G declare_vars = Inr vs1" and f: "flow_bounds L (Va_bounds vs1) = Inr vs"
    by (auto simp: build_vars_def split: sum.splits)
  show ?thesis
    unfolding flow_bounds_value [OF f dL, of v]
    by (cases v)
      (auto simp: Va_bounds_def gen_bounds_value [OF g dG] declare_vars_def new_var_def with_bounds_def
        split: option.splits)
qed

section \<open>The claims\<close>

text \<open>
  C10. On the line table of the script every reactance and every resistance is non-zero.
  So \<open>bij\<close> is computed without a division by zero, every \<open>z\<close> is positive, every
  \<open>th\<close> is the arc tangent of \<open>x / r\<close> (the fallback \<open>pi / 2\<close> for \<open>r = 0\<close> is
  never taken), and neither flow rule divides by zero at any pair of buses.
\<close>

theorem C10_no_division_by_zero:
  "(\<forall>kl\<in>set LN.
      ln_x (snd kl) \<noteq> 0 \<and> ln_r (snd kl) \<noteq> 0 \<and> 0 < z_of (snd kl) \<and>
      th_of (snd kl) = arctan (ln_x (snd kl) / ln_r (snd kl))) \<and>
   compute_bij LN = Inr (map (\<lambda>(k, l). (k, 1 / ln_x l)) LN) \<and>
   Sbase \<noteq> 0 \<and>
   (\<forall>i j. (\<exists>c. eq1_rule (compute_cx LN) (compute_th LN) (compute_z LN) i j = Inr c) \<and>
          (\<exists>c. eq2_rule (compute_cx LN) (compute_th LN) (compute_z LN) i j = Inr c))"
proof -
  have nz: "\<forall>kl\<in>set LN. ln_x (snd kl) \<noteq> 0 \<and> ln_r (snd kl) \<noteq> 0"
    by (simp add: LN_def)
  have "\<forall>kl\<in>set LN.
      ln_x (snd kl) \<noteq> 0 \<and> ln_r (snd kl) \<noteq> 0 \<and> 0 < z_of (snd kl) \<and>
      th_of (snd kl) = arctan (ln_x (snd kl) / ln_r (snd kl))"
    using nz by (simp add: z_of_pos th_of_def)
  moreover have "compute_bij LN = Inr (map (\<lambda>(k, l). (k, 1 / ln_x l)) LN)"
    by (simp add: LN_def)
  moreover have "Sbase \<noteq> 0"
    by (simp add: Sbase_def)
  moreover have "\<forall>i j. (\<exists>c. eq1_rule (compute_cx LN) (compute_th LN) (compute_z LN) i j = Inr c) \<and>
          (\<exists>c. eq2_rule (compute_cx LN) (compute_th LN) (compute_z LN) i j = Inr c)"
    using nz flow_rule_total [of LN] by (simp add: eq1_rule_def eq2_rule_def)
  ultimately show ?thesis by blast
qed

theorem C10_no_division_by_zero_witness:
  "0 < z_of (snd (hd LN)) \<and> th_of (snd (hd LN)) = arctan (ln_x (snd (hd LN)) / ln_r (snd (hd LN)))"
proof -
  have "hd LN \<in> set LN" by (simp add: LN_def)
  with C10_no_division_by_zero show ?thesis by blast
qed

text \<open>
  C9. Whatever the generator and demand tables are, a line table with an entry whose key
  names a bus outside \<open>model.i\<close> makes the builder fail in its variable stage, that is
  before any constraint is built: the script raises a Python error there (\<open>KeyError\<close> from
  indexing \<open>model.Pij\<close>, unless an earlier statement has raised already).
\<close>

theorem C9_line_outside_bus_set_fails:
  assumes "\<exists>kl\<in>set L. fst (fst kl) \<notin> set buses \<or> snd (fst kl) \<notin> set buses"
  shows "\<exists>e. build_vars G L = Inl e \<and> build G B L = Inl e"
proof -
  have "\<not> (\<exists>vs. build_vars G L = Inr vs)"
    using assms by (auto simp: build_vars_Inr_iff)
  then obtain e where "build_vars G L = Inl e"
    by (cases "build_vars G L") auto
  then show ?thesis
    by (simp add: build_def)
qed

theorem C9_line_outside_bus_set_fails_witness:
  "\<exists>e. build_vars GenD (LN @ [((5, 6), \<lparr>ln_r = 0.003, ln_x = 0.03, ln_b = 0.007, limit = 240\<rparr>)]) = Inl e \<and>
       build GenD BD (LN @ [((5, 6), \<lparr>ln_r = 0.003, ln_x = 0.03, ln_b = 0.007, limit = 240\<rparr>)]) = Inl e"
  by (rule C9_line_outside_bus_set_fails) (simp add: buses_def)

lemma LN_keys: "fst ` set LN = {(1, 2), (1, 3), (1, 5), (2, 3), (3, 4), (4, 5)}"
  by (simp add: LN_def)

lemma LN_keys_buses: "(i, j) \<in> fst ` set LN \<Longrightarrow> i \<in> set buses \<and> j \<in> set buses"
  using tables_ok by force

lemma cx_LN: "(cx_get (compute_cx LN) (i, j) = 1) = ((i, j) \<in> fst ` set LN)"
  using LN_keys_buses [of i j] by (auto simp: cx_get_compute_cx)

lemma map_of_LN_keys: "map_of LN k = Some l \<Longrightarrow> k \<in> fst ` set LN"
  by (metis domI dom_map_of_conv_image_fst)

text \<open>
  C1. The built model has the two flow equations exactly at the ordered pairs with
  \<open>cx = 1\<close>, which are the six keys of \<open>LN\<close> and none of their reverses. At such a pair,
  with \<open>z = sqrt (x\<^sup>2 + r\<^sup>2)\<close> and \<open>th = arctan (x / r)\<close> (\<open>pi / 2\<close> when \<open>r = 0\<close>) taken from
  the line's row, \<open>eq1\<close> is \<open>Pij[i,j] == (V[i]**2 * cos th - V[i] * V[j] * cos (Va[i] - Va[j] + th)) / z\<close>
  and \<open>eq2\<close> is the same with \<open>Qij\<close> and \<open>sin\<close>. At every other pair there is no flow constraint.
\<close>

theorem C1_flow_constraints:
  "\<exists>m. build GenD BD LN = Inr m \<and>
     (\<forall>i j. (cx_get (compute_cx LN) (i, j) = 1) =
              ((i, j) \<in> {(1, 2), (1, 3), (1, 5), (2, 3), (3, 4), (4, 5)}) \<and>
            (cx_get (compute_cx LN) (i, j) = 1) = (map_of LN (i, j) \<noteq> None)) \<and>
     (\<forall>i j l. map_of LN (i, j) = Some l \<longrightarrow>
        (let th = (if ln_r l \<noteq> 0 then arctan (ln_x l / ln_r l) else pi / 2);
             z = sqrt ((ln_x l)\<^sup>2 + (ln_r l)\<^sup>2)
         in eq1 m (i, j) =
              Some (Eq (Ref (Pij i j))
                (Div (Sub (Mul (Pow (Ref (V i)) 2) (Num (cos th)))
                          (Mul (Mul (Ref (V i)) (Ref (V j)))
                               (Cos (Add (Sub (Ref (Va i)) (Ref (Va j))) (Num th)))))
                     (Num z))) \<and>
            eq2 m (i, j) =
              Some (Eq (Ref (Qij i j))
                (Div (Sub (Mul (Pow (Ref (V i)) 2) (Num (sin th)))
                          (Mul (Mul (Ref (V i)) (Ref (V j)))
                               (Sin (Add (Sub (Ref (Va i)) (Ref (Va j))) (Num th)))))
                     (Num z))))) \<and>
     (\<forall>i j. cx_get (compute_cx LN) (i, j) \<noteq> 1 \<longrightarrow> eq1 m (i, j) = None \<and> eq2 m (i, j) = None)"
proof -
  obtain m where m: "build GenD BD LN = Inr m"
    using build_tables by blast
  then obtain vs where bc: "build_constraints GenD BD LN vs = Inr m"
    by (rule build_InrD)
  have cx: "\<forall>i j. (cx_get (compute_cx LN) (i, j) = 1) =
              ((i, j) \<in> {(1, 2), (1, 3), (1, 5), (2, 3), (3, 4), (4, 5)}) \<and>
            (cx_get (compute_cx LN) (i, j) = 1) = (map_of LN (i, j) \<noteq> None)"
    by (simp only: cx_LN LN_keys [symmetric] map_of_eq_None_iff simp_thms)
  have present: "\<forall>i j l. map_of LN (i, j) = Some l \<longrightarrow>
        (let th = (if ln_r l \<noteq> 0 then arctan (ln_x l / ln_r l) else pi / 2);
             z = sqrt ((ln_x l)\<^sup>2 + (ln_r l)\<^sup>2)
         in eq1 m (i, j) =
              Some (Eq (Ref (Pij i j))
                (Div (Sub (Mul (Pow (Ref (V i)) 2) (Num (cos th)))
                          (Mul (Mul (Ref (V i)) (Ref (V j)))
                               (Cos (Add (Sub (Ref (Va i)) (Ref (Va j))) (Num th)))))
                     (Num z))) \<and>
            eq2 m (i, j) =
              Some (Eq (Ref (Qij i j))
                (Div (Sub (Mul (Pow (Ref (V i)) 2) (Num (sin th)))
                          (Mul (Mul (Ref (V i)) (Ref (V j)))
                               (Sin (Add (Sub (Ref (Va i)) (Ref (Va j))) (Num th)))))
                     (Num z))))"
  proof (intro allI impI)
    fix i j l assume l: "map_of LN (i, j) = Some l"
    then have "i \<in> set buses \<and> j \<in> set buses"
      using map_of_LN_keys LN_keys_buses by blast
    then show "let th = (if ln_r l \<noteq> 0 then arctan (ln_x l / ln_r l) else pi / 2);
             z = sqrt ((ln_x l)\<^sup>2 + (ln_r l)\<^sup>2)
         in eq1 m (i, j) =
              Some (Eq (Ref (Pij i j))
                (Div (Sub (Mul (Pow (Ref (V i)) 2) (Num (cos th)))
                          (Mul (Mul (Ref (V i)) (Ref (V j)))
                               (Cos (Add (Sub (Ref (Va i)) (Ref (Va j))) (Num th)))))
                     (Num z))) \<and>
            eq2 m (i, j) =
              Some (Eq (Ref (Qij i j))
                (Div (Sub (Mul (Pow (Ref (V i)) 2) (Num (sin th)))
                          (Mul (Mul (Ref (V i)) (Ref (V j)))
                               (Sin (Add (Sub (Ref (Va i)) (Ref (Va j))) (Num th)))))
                     (Num z)))"
      using l by (simp add: eq1_built [OF bc] eq2_built [OF bc] flow_expr_def th_of_def z_of_def Let_def)
  qed
  have absent: "\<forall>i j. cx_get (compute_cx LN) (i, j) \<noteq> 1 \<longrightarrow> eq1 m (i, j) = None \<and> eq2 m (i, j) = None"
  proof (intro allI impI)
    fix i j assume "cx_get (compute_cx LN) (i, j) \<noteq> 1"
    then have "map_of LN (i, j) = None"
      by (simp only: cx_LN map_of_eq_None_iff simp_thms)
    then show "eq1 m (i, j) = None \<and> eq2 m (i, j) = None"
      by (simp add: eq1_built [OF bc] eq2_built [OF bc])
  qed
  show ?thesis
    using m cx present absent by blast
qed

theorem C1_flow_constraints_witness:
  "\<exists>m. build GenD BD LN = Inr m \<and>
     eq1 m (1, 2) = Some (Eq (Ref (Pij 1 2)) (flow_expr cos Cos 1 2 (arctan 10) (sqrt (0.0281\<^sup>2 + 0.00281\<^sup>2)))) \<and>
     eq2 m (1, 2) = Some (Eq (Ref (Qij 1 2)) (flow_expr sin Sin 1 2 (arctan 10) (sqrt (0.0281\<^sup>2 + 0.00281\<^sup>2)))) \<and>
     eq1 m (2, 1) = None \<and> eq2 m (2, 1) = None"
proof -
  have row: "map_of LN (1, 2) = Some \<lparr>ln_r = 0.00281, ln_x = 0.0281, ln_b = 0.00712, limit = 400\<rparr>"
    by (simp add: LN_def)
  from C1_flow_constraints obtain m where
    m: "build GenD BD LN = Inr m" and
    cx: "\<forall>i j. (cx_get (compute_cx LN) (i, j) = 1) =
              ((i, j) \<in> {(1, 2), (1, 3), (1, 5), (2, 3), (3, 4), (4, 5)}) \<and>
            (cx_get (compute_cx LN) (i, j) = 1) = (map_of LN (i, j) \<noteq> None)" and
    present: "\<forall>i j l. map_of LN (i, j) = Some l \<longrightarrow>
        (let th = (if ln_r l \<noteq> 0 then arctan (ln_x l / ln_r l) else pi / 2);
             z = sqrt ((ln_x l)\<^sup>2 + (ln_r l)\<^sup>2)
         in eq1 m (i, j) =
              Some (Eq (Ref (Pij i j))
                (Div (Sub (Mul (Pow (Ref (V i)) 2) (Num (cos th)))
                          (Mul (Mul (Ref (V i)) (Ref (V j)))
                               (Cos (Add (Sub (Ref (Va i)) (Ref (Va j))) (Num th)))))
                     (Num z))) \<and>
            eq2 m (i, j) =
              Some (Eq (Ref (Qij i j))
                (Div (Sub (Mul (Pow (Ref (V i)) 2) (Num (sin th)))
                          (Mul (Mul (Ref (V i)) (Ref (V j)))
                               (Sin (Add (Sub (Ref (Va i)) (Ref (Va j))) (Num th)))))
                     (Num z))))" and
    absent: "\<forall>i j. cx_get (compute_cx LN) (i, j) \<noteq> 1 \<longrightarrow> eq1 m (i, j) = None \<and> eq2 m (i, j) = None"
    by blast
  have "cx_get (compute_cx LN) (2, 1) \<noteq> 1"
    using cx by simp
  then have "eq1 m (2, 1) = None \<and> eq2 m (2, 1) = None"
    using absent by blast
  moreover have "eq1 m (1, 2) = Some (Eq (Ref (Pij 1 2)) (flow_expr cos Cos 1 2 (arctan 10) (sqrt (0.0281\<^sup>2 + 0.00281\<^sup>2)))) \<and>
     eq2 m (1, 2) = Some (Eq (Ref (Qij 1 2)) (flow_expr sin Sin 1 2 (arctan 10) (sqrt (0.0281\<^sup>2 + 0.00281\<^sup>2))))"
    using present [rule_format, OF row] by (simp add: Let_def flow_expr_def)
  ultimately show ?thesis
    using m by blast
qed

lemma cx_LN_Suc: "(cx_get (compute_cx LN) (i, j) = Suc 0) = ((i, j) \<in> fst ` set LN)"
  using cx_LN [of i j] by simp




lemma built_vars_value:
  assumes b: "build G B L = Inr m" and dG: "distinct (map fst G)" and dL: "distinct (map fst L)"
  shows "vars m v =
     (if v = V 1 then Some (new_var\<lparr>val := Some 1\<rparr>)
      else if v = Va 1 then Some ((with_bounds (- pi / 2) (pi / 2))\<lparr>val := Some 0\<rparr>)
      else if \<not> declared v then None
      else Some (case v of
        Pg i \<Rightarrow> (case map_of G i of None \<Rightarrow> new_var | Some g \<Rightarrow> with_bounds (pmin g / Sbase) (pmax g / Sbase))
      | Qg i \<Rightarrow> (case map_of G i of None \<Rightarrow> new_var | Some g \<Rightarrow> with_bounds (Qmin g / Sbase) (Qmax g / Sbase))
      | Va i \<Rightarrow> with_bounds (- pi / 2) (pi / 2)
      | Pij i j \<Rightarrow> (case map_of L (i, j) of None \<Rightarrow> new_var | Some l \<Rightarrow> with_bounds (- limit l / Sbase) (limit l / Sbase))
      | _ \<Rightarrow> new_var))"
proof -
  from b obtain vs where bv: "build_vars G L = Inr vs" and bc: "build_constraints G B L vs = Inr m"
    by (rule build_InrD)
  from vars_built [OF bc] obtain d1 d2 where
    d1: "vs (V 1) = Some d1" and d2: "vs (Va 1) = Some d2" and
    vm: "vars m = vs(V 1 \<mapsto> d1\<lparr>val := Some 1\<rparr>, Va 1 \<mapsto> d2\<lparr>val := Some 0\<rparr>)"
    by blast
  have "d1 = new_var"
    using d1 build_vars_value [OF bv dG dL, of "V 1"] by (simp split: if_splits)
  moreover have "d2 = with_bounds (- pi / 2) (pi / 2)"
    using d2 build_vars_value [OF bv dG dL, of "Va 1"] by (simp split: if_splits)
  ultimately show ?thesis
    unfolding vm using build_vars_value [OF bv dG dL, of v] by simp
qed

lemma vars_of_foldl_Add: "vars_of (foldl Add a es) = vars_of a \<union> (\<Union>e\<in>set es. vars_of e)"
  by (induction es arbitrary: a) auto

lemma vars_of_py_sum: "vars_of (py_sum es) = (\<Union>e\<in>set es. vars_of e)"
  by (simp add: py_sum_def vars_of_foldl_Add)

lemma vars_of_cost_term: "vars_of (cost_term i g) = {Pg i}"
  by (simp add: cost_term_def)

lemma eval_foldl_Add:
  "eval p a = Some x \<Longrightarrow> \<forall>e\<in>set es. eval p e = Some (f e) \<Longrightarrow>
   eval p (foldl Add a es) = Some (x + sum_list (map f es))"
  by (induction es arbitrary: a x) (auto simp: algebra_simps)

lemma eval_py_sum:
  "\<forall>e\<in>set es. eval p e = Some (f e) \<Longrightarrow> eval p (py_sum es) = Some (sum_list (map f es))"
  using eval_foldl_Add [of p "Num 0" 0 es f] by (simp add: py_sum_def)

lemma eval_cost_term:
  "eval p (cost_term i g) =
     Some (p (Pg i) * gen_b g * Sbase + p (Pg i) * p (Pg i) * gen_b g * Sbase * Sbase + gen_b g)"
  by (simp add: cost_term_def)

lemma eval_objective:
  "eval p (py_sum (map (\<lambda>(i, g). cost_term i g) G)) =
     Some (\<Sum>(i, g)\<leftarrow>G. p (Pg i) * gen_b g * Sbase + p (Pg i) * p (Pg i) * gen_b g * Sbase * Sbase + gen_b g)"
proof -
  have "eval p (py_sum (map (\<lambda>(i, g). cost_term i g) G)) =
     Some (sum_list (map (\<lambda>e. the (eval p e)) (map (\<lambda>(i, g). cost_term i g) G)))"
    by (rule eval_py_sum) (auto simp: eval_cost_term)
  then show ?thesis
    by (simp add: comp_def split_def eval_cost_term)
qed

lemma vars_of_objective:
  "vars_of (py_sum (map (\<lambda>(i, g). cost_term i g) G)) = Pg ` fst ` set G"
  by (auto simp: vars_of_py_sum vars_of_cost_term intro: rev_image_eqI)

text \<open>
  C3. The objective of the built model is to be minimised, the variables in it are
  \<open>Pg[1]\<close>, \<open>Pg[3]\<close>, \<open>Pg[4]\<close>, \<open>Pg[5]\<close> only (so not \<open>Pg[2]\<close>), and at every point its value
  is the sum over the rows of \<open>GenD\<close> of \<open>Pg[i] * b * Sbase + Pg[i] * Pg[i] * b * Sbase * Sbase + b\<close>,
  with \<open>Sbase = 100\<close>.
\<close>

theorem C3_objective:
  "\<exists>m e. build GenD BD LN = Inr m \<and> objective m = Some (e, minimize) \<and>
     vars_of e = {Pg 1, Pg 3, Pg 4, Pg 5} \<and> map fst GenD = [1, 3, 4, 5] \<and> Sbase = 100 \<and>
     (\<forall>p. eval p e =
        Some (\<Sum>(i, g)\<leftarrow>GenD. p (Pg i) * gen_b g * Sbase + p (Pg i) * p (Pg i) * gen_b g * Sbase * Sbase + gen_b g))"
proof -
  obtain m where m: "build GenD BD LN = Inr m"
    using build_tables by blast
  then obtain vs where bc: "build_constraints GenD BD LN vs = Inr m"
    by (rule build_InrD)
  let ?e = "py_sum (map (\<lambda>(i, g). cost_term i g) GenD)"
  show ?thesis
  proof (intro exI conjI)
    show "build GenD BD LN = Inr m"
      by (rule m)
    show "objective m = Some (?e, minimize)"
      by (rule objective_built [OF bc])
    show "vars_of ?e = {Pg 1, Pg 3, Pg 4, Pg 5}"
      by (simp add: vars_of_objective) (simp add: GenD_def)
    show "map fst GenD = [1, 3, 4, 5]"
      by (simp add: GenD_def)
    show "Sbase = 100"
      by (simp add: Sbase_def)
    show "\<forall>p. eval p ?e =
        Some (\<Sum>(i, g)\<leftarrow>GenD. p (Pg i) * gen_b g * Sbase + p (Pg i) * p (Pg i) * gen_b g * Sbase * Sbase + gen_b g)"
      by (simp only: eval_objective simp_thms)
  qed
qed

theorem C3_objective_witness:
  "\<exists>m e. build GenD BD LN = Inr m \<and> objective m = Some (e, minimize) \<and>
     Pg 2 \<notin> vars_of e \<and> eval (\<lambda>v. 1) e = Some 111111"
proof -
  from C3_objective obtain m e where
    m: "build GenD BD LN = Inr m" and ob: "objective m = Some (e, minimize)" and
    vs: "vars_of e = {Pg 1, Pg 3, Pg 4, Pg 5}" and
    ev: "\<forall>p. eval p e =
        Some (\<Sum>(i, g)\<leftarrow>GenD. p (Pg i) * gen_b g * Sbase + p (Pg i) * p (Pg i) * gen_b g * Sbase * Sbase + gen_b g)"
    by (elim exE conjE)
  show ?thesis
  proof (intro exI conjI)
    show "build GenD BD LN = Inr m"
      by (rule m)
    show "objective m = Some (e, minimize)"
      by (rule ob)
    show "Pg 2 \<notin> vars_of e"
      using vs by simp
    show "eval (\<lambda>v. 1) e = Some 111111"
      using ev by (simp add: GenD_def Sbase_def)
  qed
qed

lemma GenD_keys_buses: "map_of GenD i = Some g \<Longrightarrow> i \<in> set buses"
  using tables_ok by (force dest: map_of_SomeD)

lemma map_of_GenD_2: "map_of GenD 2 = None"
  by (simp add: GenD_def)

text \<open>
  C4. In the built model \<open>Pg[i]\<close> is bounded to \<open>[pmin / Sbase, pmax / Sbase]\<close> and \<open>Qg[i]\<close>
  to \<open>[Qmin / Sbase, Qmax / Sbase]\<close> at the keys 1, 3, 4, 5 of \<open>GenD\<close>, and at a bus
  without a generator row both exist without bounds and without a value; every \<open>Va[i]\<close> is
  bounded to \<open>[- pi / 2, pi / 2]\<close>; no \<open>V[i]\<close> has a bound; in particular \<open>Pg[2]\<close> and
  \<open>Qg[2]\<close> are free.
\<close>

theorem C4_variable_bounds:
  "\<exists>m. build GenD BD LN = Inr m \<and>
     map fst GenD = [1, 3, 4, 5] \<and>
     (\<forall>i g. map_of GenD i = Some g \<longrightarrow>
        (\<exists>d. vars m (Pg i) = Some d \<and> lb d = Some (pmin g / Sbase) \<and> ub d = Some (pmax g / Sbase)) \<and>
        (\<exists>d. vars m (Qg i) = Some d \<and> lb d = Some (Qmin g / Sbase) \<and> ub d = Some (Qmax g / Sbase))) \<and>
     (\<forall>i\<in>set buses. map_of GenD i = None \<longrightarrow>
        vars m (Pg i) = Some \<lparr>lb = None, ub = None, val = None\<rparr> \<and>
        vars m (Qg i) = Some \<lparr>lb = None, ub = None, val = None\<rparr>) \<and>
     (\<forall>i\<in>set buses. \<exists>d. vars m (Va i) = Some d \<and> lb d = Some (- pi / 2) \<and> ub d = Some (pi / 2)) \<and>
     (\<forall>i\<in>set buses. \<exists>d. vars m (V i) = Some d \<and> lb d = None \<and> ub d = None) \<and>
     vars m (Pg 2) = Some \<lparr>lb = None, ub = None, val = None\<rparr> \<and>
     vars m (Qg 2) = Some \<lparr>lb = None, ub = None, val = None\<rparr>"
proof -
  obtain m where m: "build GenD BD LN = Inr m"
    using build_tables by blast
  note v = built_vars_value [OF m distinct_tables(1) distinct_tables(3)]
  show ?thesis
  proof (intro exI conjI)
    show "build GenD BD LN = Inr m"
      by (rule m)
    show "map fst GenD = [1, 3, 4, 5]"
      by (simp add: GenD_def)
    show "\<forall>i g. map_of GenD i = Some g \<longrightarrow>
        (\<exists>d. vars m (Pg i) = Some d \<and> lb d = Some (pmin g / Sbase) \<and> ub d = Some (pmax g / Sbase)) \<and>
        (\<exists>d. vars m (Qg i) = Some d \<and> lb d = Some (Qmin g / Sbase) \<and> ub d = Some (Qmax g / Sbase))"
      by (simp add: v GenD_keys_buses with_bounds_def)
    show "\<forall>i\<in>set buses. map_of GenD i = None \<longrightarrow>
        vars m (Pg i) = Some \<lparr>lb = None, ub = None, val = None\<rparr> \<and>
        vars m (Qg i) = Some \<lparr>lb = None, ub = None, val = None\<rparr>"
      by (simp add: v new_var_def)
    show "\<forall>i\<in>set buses. \<exists>d. vars m (Va i) = Some d \<and> lb d = Some (- pi / 2) \<and> ub d = Some (pi / 2)"
      by (simp add: v with_bounds_def)
    show "\<forall>i\<in>set buses. \<exists>d. vars m (V i) = Some d \<and> lb d = None \<and> ub d = None"
      by (simp add: v new_var_def)
    show "vars m (Pg 2) = Some \<lparr>lb = None, ub = None, val = None\<rparr>"
      by (simp add: v new_var_def map_of_GenD_2 buses_def)
    show "vars m (Qg 2) = Some \<lparr>lb = None, ub = None, val = None\<rparr>"
      by (simp add: v new_var_def map_of_GenD_2 buses_def)
  qed
qed

theorem C4_variable_bounds_witness:
  "\<exists>m. build GenD BD LN = Inr m \<and>
     (\<exists>d. vars m (Pg 3) = Some d \<and> lb d = Some 0 \<and> ub d = Some 5.2) \<and>
     (\<exists>d. vars m (Qg 3) = Some d \<and> lb d = Some (- 3.9) \<and> ub d = Some 3.9) \<and>
     (\<exists>d. vars m (Va 4) = Some d \<and> lb d = Some (- pi / 2) \<and> ub d = Some (pi / 2)) \<and>
     (\<exists>d. vars m (V 4) = Some d \<and> lb d = None \<and> ub d = None)"
proof -
  from C4_variable_bounds obtain m where
    m: "build GenD BD LN = Inr m" and
    g: "\<forall>i g. map_of GenD i = Some g \<longrightarrow>
        (\<exists>d. vars m (Pg i) = Some d \<and> lb d = Some (pmin g / Sbase) \<and> ub d = Some (pmax g / Sbase)) \<and>
        (\<exists>d. vars m (Qg i) = Some d \<and> lb d = Some (Qmin g / Sbase) \<and> ub d = Some (Qmax g / Sbase))" and
    a: "\<forall>i\<in>set buses. \<exists>d. vars m (Va i) = Some d \<and> lb d = Some (- pi / 2) \<and> ub d = Some (pi / 2)" and
    u: "\<forall>i\<in>set buses. \<exists>d. vars m (V i) = Some d \<and> lb d = None \<and> ub d = None"
    by (elim exE conjE)
  have row: "map_of GenD 3 = Some \<lparr>pmax = 520, pmin = 0, Qmax = 390, Qmin = - 390, gen_b = 5\<rparr>"
    by (simp add: GenD_def)
  have b: "(4::int) \<in> set buses"
    by (simp add: buses_def)
  show ?thesis
  proof (rule exI [of _ m], intro conjI)
    show "build GenD BD LN = Inr m"
      by (rule m)
    show "\<exists>d. vars m (Pg 3) = Some d \<and> lb d = Some 0 \<and> ub d = Some 5.2"
      using g [rule_format, OF row] by (simp add: Sbase_def)
    show "\<exists>d. vars m (Qg 3) = Some d \<and> lb d = Some (- 3.9) \<and> ub d = Some 3.9"
      using g [rule_format, OF row] by (simp add: Sbase_def)
    show "\<exists>d. vars m (Va 4) = Some d \<and> lb d = Some (- pi / 2) \<and> ub d = Some (pi / 2)"
      using a b by (rule bspec)
    show "\<exists>d. vars m (V 4) = Some d \<and> lb d = None \<and> ub d = None"
      using u b by (rule bspec)
  qed
qed

text \<open>
  C5, as the claim states it, fails: the loop over \<open>LN.keys()\<close> sets the bounds of \<open>Pij\<close>
  only. At the line \<open>(1, 2)\<close>, where \<open>cx = 1\<close>, the variable \<open>Qij[1,2]\<close> of the built model
  has no bound.
\<close>

theorem C5_Qij_unbounded_counterexample:
  "case build GenD BD LN of
     Inl e \<Rightarrow> False
   | Inr m \<Rightarrow> cx_get (compute_cx LN) (1, 2) = 1 \<and>
              vars m (Qij 1 2) = Some \<lparr>lb = None, ub = None, val = None\<rparr>"
proof -
  obtain m where m: "build GenD BD LN = Inr m"
    using build_tables by blast
  have "cx_get (compute_cx LN) (1, 2) = 1"
    by (simp only: cx_LN LN_keys) simp
  moreover have "vars m (Qij 1 2) = Some \<lparr>lb = None, ub = None, val = None\<rparr>"
    by (simp add: built_vars_value [OF m distinct_tables(1) distinct_tables(3)] new_var_def buses_def)
  ultimately show ?thesis
    using m by simp
qed

text \<open>
  C5, amended. At every ordered pair with a row in \<open>LN\<close>, that is with \<open>cx = 1\<close>, the
  variable \<open>Pij[i,j]\<close> of the built model is bounded to \<open>[- limit / Sbase, limit / Sbase]\<close>
  with the limit of that row. \<open>Pij\<close> at every other pair of buses, and \<open>Qij\<close> at every
  pair of buses, have no bound.
\<close>

theorem C5_flow_bounds:
  "\<exists>m. build GenD BD LN = Inr m \<and>
     (\<forall>i j l. map_of LN (i, j) = Some l \<longrightarrow>
        cx_get (compute_cx LN) (i, j) = 1 \<and>
        (\<exists>d. vars m (Pij i j) = Some d \<and>
             lb d = Some (- limit l / Sbase) \<and> ub d = Some (limit l / Sbase))) \<and>
     (\<forall>i\<in>set buses. \<forall>j\<in>set buses. cx_get (compute_cx LN) (i, j) \<noteq> 1 \<longrightarrow>
        vars m (Pij i j) = Some \<lparr>lb = None, ub = None, val = None\<rparr>) \<and>
     (\<forall>i\<in>set buses. \<forall>j\<in>set buses.
        vars m (Qij i j) = Some \<lparr>lb = None, ub = None, val = None\<rparr>)"
proof -
  obtain m where m: "build GenD BD LN = Inr m"
    using build_tables by blast
  note v = built_vars_value [OF m distinct_tables(1) distinct_tables(3)]
  show ?thesis
  proof (rule exI [of _ m], intro conjI)
    show "build GenD BD LN = Inr m"
      by (rule m)
    show "\<forall>i j l. map_of LN (i, j) = Some l \<longrightarrow>
        cx_get (compute_cx LN) (i, j) = 1 \<and>
        (\<exists>d. vars m (Pij i j) = Some d \<and>
             lb d = Some (- limit l / Sbase) \<and> ub d = Some (limit l / Sbase))"
    proof (intro allI impI)
      fix i j l assume l: "map_of LN (i, j) = Some l"
      then have k: "(i, j) \<in> fst ` set LN"
        by (rule map_of_LN_keys)
      then have b: "i \<in> set buses \<and> j \<in> set buses"
        by (rule LN_keys_buses)
      have "cx_get (compute_cx LN) (i, j) = 1"
        using k by (simp only: cx_LN)
      moreover have "\<exists>d. vars m (Pij i j) = Some d \<and>
             lb d = Some (- limit l / Sbase) \<and> ub d = Some (limit l / Sbase)"
        using l b by (simp add: v with_bounds_def)
      ultimately show "cx_get (compute_cx LN) (i, j) = 1 \<and>
        (\<exists>d. vars m (Pij i j) = Some d \<and>
             lb d = Some (- limit l / Sbase) \<and> ub d = Some (limit l / Sbase))"
        by (rule conjI)
    qed
    show "\<forall>i\<in>set buses. \<forall>j\<in>set buses. cx_get (compute_cx LN) (i, j) \<noteq> 1 \<longrightarrow>
        vars m (Pij i j) = Some \<lparr>lb = None, ub = None, val = None\<rparr>"
    proof (intro ballI impI)
      fix i j assume b: "i \<in> set buses" "j \<in> set buses" and c: "cx_get (compute_cx LN) (i, j) \<noteq> 1"
      from c have "map_of LN (i, j) = None"
        by (simp only: cx_LN map_of_eq_None_iff simp_thms)
      then show "vars m (Pij i j) = Some \<lparr>lb = None, ub = None, val = None\<rparr>"
        using b by (simp add: v new_var_def)
    qed
    show "\<forall>i\<in>set buses. \<forall>j\<in>set buses.
        vars m (Qij i j) = Some \<lparr>lb = None, ub = None, val = None\<rparr>"
      by (simp add: v new_var_def)
  qed
qed

theorem C5_flow_bounds_witness:
  "\<exists>m. build GenD BD LN = Inr m \<and>
     (\<exists>d. vars m (Pij 4 5) = Some d \<and> lb d = Some (- 2.4) \<and> ub d = Some 2.4) \<and>
     vars m (Pij 5 4) = Some \<lparr>lb = None, ub = None, val = None\<rparr> \<and>
     vars m (Qij 4 5) = Some \<lparr>lb = None, ub = None, val = None\<rparr>"
proof -
  from C5_flow_bounds obtain m where
    m: "build GenD BD LN = Inr m" and
    p: "\<forall>i j l. map_of LN (i, j) = Some l \<longrightarrow>
        cx_get (compute_cx LN) (i, j) = 1 \<and>
        (\<exists>d. vars m (Pij i j) = Some d \<and>
             lb d = Some (- limit l / Sbase) \<and> ub d = Some (limit l / Sbase))" and
    n: "\<forall>i\<in>set buses. \<forall>j\<in>set buses. cx_get (compute_cx LN) (i, j) \<noteq> 1 \<longrightarrow>
        vars m (Pij i j) = Some \<lparr>lb = None, ub = None, val = None\<rparr>" and
    q: "\<forall>i\<in>set buses. \<forall>j\<in>set buses.
        vars m (Qij i j) = Some \<lparr>lb = None, ub = None, val = None\<rparr>"
    by (elim exE conjE)
  have row: "map_of LN (4, 5) = Some \<lparr>ln_r = 0.00297, ln_x = 0.0297, ln_b = 0.00674, limit = 240\<rparr>"
    by (simp add: LN_def)
  have b: "(4::int) \<in> set buses" "(5::int) \<in> set buses"
    by (simp_all add: buses_def)
  have c: "cx_get (compute_cx LN) (5, 4) \<noteq> 1"
    by (simp only: cx_LN LN_keys) simp
  show ?thesis
  proof (rule exI [of _ m], intro conjI)
    show "build GenD BD LN = Inr m"
      by (rule m)
    show "\<exists>d. vars m (Pij 4 5) = Some d \<and> lb d = Some (- 2.4) \<and> ub d = Some 2.4"
      using p [rule_format, OF row] by (simp add: Sbase_def)
    show "vars m (Pij 5 4) = Some \<lparr>lb = None, ub = None, val = None\<rparr>"
      using n b c by blast
    show "vars m (Qij 4 5) = Some \<lparr>lb = None, ub = None, val = None\<rparr>"
      using q b by blast
  qed
qed

section \<open>Properties of the report\<close>

lemma print_loop_printed:
  "\<forall>i\<in>set bs. vs (X i) \<noteq> None \<Longrightarrow> print_loop X fmt vs bs out = Inr (out @ printed X fmt vs bs)"
proof (induction bs arbitrary: out)
  case Nil
  then show ?case by (simp add: printed_def)
next
  case (Cons i bs)
  then obtain d where d: "vs (X i) = Some d" by auto
  have rest: "\<And>out'. print_loop X fmt vs bs out' = Inr (out' @ printed X fmt vs bs)"
    using Cons by simp
  show ?case
    using d rest by (cases "val d") (simp_all add: printed_def value_of_def)
qed

lemma print_loop_KeyError:
  "\<exists>i\<in>set bs. vs (X i) = None \<Longrightarrow> print_loop X fmt vs bs out = Inl KeyError"
  by (induction bs arbitrary: out) (auto split: option.splits)

lemma mem_printed:
  "l \<in> set (printed X fmt vs bs) \<longleftrightarrow> (\<exists>i\<in>set bs. \<exists>v. value_of vs (X i) = Some v \<and> l = fmt i v)"
proof (induction bs)
  case Nil
  then show ?case by (simp add: printed_def)
next
  case (Cons a bs)
  have step: "printed X fmt vs (a # bs) =
      (case value_of vs (X a) of None \<Rightarrow> [] | Some v \<Rightarrow> [fmt a v]) @ printed X fmt vs bs"
    by (simp add: printed_def)
  show ?case
    unfolding step using Cons.IH by (cases "value_of vs (X a)") auto
qed

lemma report_printed:
  assumes "\<forall>i\<in>set buses. vs (Pg i) \<noteq> None \<and> vs (Qg i) \<noteq> None \<and> vs (Va i) \<noteq> None"
  shows "report tc vs =
    Inr (status_line tc # printed Pg pg_line_bare vs buses @ printed Va va_line vs buses @
         pg_header # printed Pg pg_line vs buses @ qg_header # printed Qg qg_line vs buses)"
proof -
  have p: "\<forall>i\<in>set buses. vs (Pg i) \<noteq> None" and q: "\<forall>i\<in>set buses. vs (Qg i) \<noteq> None"
    and a: "\<forall>i\<in>set buses. vs (Va i) \<noteq> None"
    using assms by simp_all
  show ?thesis
    by (simp add: report_def print_loop_printed [OF p] print_loop_printed [OF q]
        print_loop_printed [OF a])
qed

lemma built_declared:
  assumes "build G B L = Inr m"
  shows "\<forall>i\<in>set buses. vars m (Pg i) \<noteq> None \<and> vars m (Qg i) \<noteq> None \<and> vars m (Va i) \<noteq> None"
proof -
  from assms obtain vs where bv: "build_vars G L = Inr vs" and bc: "build_constraints G B L vs = Inr m"
    by (rule build_InrD)
  from vars_built [OF bc] obtain d1 d2 where
    vm: "vars m = vs(V 1 \<mapsto> d1\<lparr>val := Some 1\<rparr>, Va 1 \<mapsto> d2\<lparr>val := Some 0\<rparr>)"
    by blast
  have "\<And>w. declared w \<Longrightarrow> vs w \<noteq> None"
    using build_vars_dom [OF bv] by simp
  then have "\<forall>i\<in>set buses. vs (Pg i) \<noteq> None \<and> vs (Qg i) \<noteq> None \<and> vs (Va i) \<noteq> None"
    by simp
  then show ?thesis
    unfolding vm by simp
qed

lemma value_of_Some: "(value_of vs w = Some v) = (\<exists>d. vs w = Some d \<and> val d = Some v)"
  by (simp add: value_of_def split: option.splits)

text \<open>
  C7. The solver call of line 130 is outside the script; this is about the statements
  that run once it has returned a termination condition. Let the model hold \<open>Pg[i]\<close>,
  \<open>Qg[i]\<close> and \<open>Va[i]\<close> for every bus, as a built model does. Then the report raises
  nothing, whatever the termination condition is. Its first line is
  \<open>Model solved successfully!\<close> when the condition is \<open>optimal\<close>, and otherwise
  \<open>Model could not be solved. Termination condition:\<close>, a blank and the condition itself.
  The lines after the first do not depend on the termination condition. They are exactly:
  the two headers; for every bus whose \<open>Pg\<close> has a value \<open>v\<close>, the lines
  \<open>Generator i: Pg = v * Sbase\<close> and \<open>Generator i: Pg = v * Sbase MW\<close>; for every bus whose
  \<open>Va\<close> has a value \<open>v\<close>, the line \<open>Bus i: Va = v\<close>; for every bus whose \<open>Qg\<close> has a
  value \<open>v\<close>, the line \<open>Generator i: Qg = v * Sbase MVar\<close>.
\<close>

theorem C7_report_after_solve:
  assumes "\<forall>i\<in>set buses. vs (Pg i) \<noteq> None \<and> vs (Qg i) \<noteq> None \<and> vs (Va i) \<noteq> None"
  shows "\<exists>rest.
     (\<forall>tc. report tc vs =
        Inr ((if tc = optimal then [Str ''Model solved successfully!'']
              else [Str ''Model could not be solved. Termination condition:'', Str '' '', Cond tc]) # rest)) \<and>
     (\<forall>l. l \<in> set rest \<longleftrightarrow>
        l = [Str ''Active Power Output (Pg) in MW:''] \<or>
        l = [Str ''Reactive Power Output (Qg) in MVar:''] \<or>
        (\<exists>i\<in>set buses. \<exists>d v. vs (Pg i) = Some d \<and> val d = Some v \<and>
           (l = [Str ''Generator '', IntV i, Str '': Pg = '', FloatV (v * Sbase)] \<or>
            l = [Str ''Generator '', IntV i, Str '': Pg = '', FloatV (v * Sbase), Str '' MW''])) \<or>
        (\<exists>i\<in>set buses. \<exists>d v. vs (Va i) = Some d \<and> val d = Some v \<and>
           l = [Str ''Bus '', IntV i, Str '': Va = '', FloatV v]) \<or>
        (\<exists>i\<in>set buses. \<exists>d v. vs (Qg i) = Some d \<and> val d = Some v \<and>
           l = [Str ''Generator '', IntV i, Str '': Qg = '', FloatV (v * Sbase), Str '' MVar'']))"
proof -
  let ?rest = "printed Pg pg_line_bare vs buses @ printed Va va_line vs buses @
         pg_header # printed Pg pg_line vs buses @ qg_header # printed Qg qg_line vs buses"
  show ?thesis
  proof (rule exI [of _ ?rest], intro conjI)
    show "\<forall>tc. report tc vs =
        Inr ((if tc = optimal then [Str ''Model solved successfully!'']
              else [Str ''Model could not be solved. Termination condition:'', Str '' '', Cond tc]) # ?rest)"
      by (simp only: report_printed [OF assms] status_line_def simp_thms)
    have mem: "\<And>l. l \<in> set ?rest \<longleftrightarrow>
        l = pg_header \<or> l = qg_header \<or>
        (\<exists>i\<in>set buses. \<exists>d v. vs (Pg i) = Some d \<and> val d = Some v \<and>
           (l = pg_line_bare i v \<or> l = pg_line i v)) \<or>
        (\<exists>i\<in>set buses. \<exists>d v. vs (Va i) = Some d \<and> val d = Some v \<and> l = va_line i v) \<or>
        (\<exists>i\<in>set buses. \<exists>d v. vs (Qg i) = Some d \<and> val d = Some v \<and> l = qg_line i v)"
      by (simp add: mem_printed value_of_Some) blast
    show "\<forall>l. l \<in> set ?rest \<longleftrightarrow>
        l = [Str ''Active Power Output (Pg) in MW:''] \<or>
        l = [Str ''Reactive Power Output (Qg) in MVar:''] \<or>
        (\<exists>i\<in>set buses. \<exists>d v. vs (Pg i) = Some d \<and> val d = Some v \<and>
           (l = [Str ''Generator '', IntV i, Str '': Pg = '', FloatV (v * Sbase)] \<or>
            l = [Str ''Generator '', IntV i, Str '': Pg = '', FloatV (v * Sbase), Str '' MW''])) \<or>
        (\<exists>i\<in>set buses. \<exists>d v. vs (Va i) = Some d \<and> val d = Some v \<and>
           l = [Str ''Bus '', IntV i, Str '': Va = '', FloatV v]) \<or>
        (\<exists>i\<in>set buses. \<exists>d v. vs (Qg i) = Some d \<and> val d = Some v \<and>
           l = [Str ''Generator '', IntV i, Str '': Qg = '', FloatV (v * Sbase), Str '' MVar''])"
      using mem
      by (simp only: pg_header_def qg_header_def pg_line_bare_def pg_line_def va_line_def
          qg_line_def simp_thms)
  qed
qed

theorem C7_report_after_solve_witness:
  "\<exists>m rest. build GenD BD LN = Inr m \<and>
     report infeasible ((vars m)(Pg 3 \<mapsto> \<lparr>lb = Some 0, ub = Some 5.2, val = Some 2.5\<rparr>)) =
       Inr ([Str ''Model could not be solved. Termination condition:'', Str '' '', Cond infeasible] # rest) \<and>
     report optimal ((vars m)(Pg 3 \<mapsto> \<lparr>lb = Some 0, ub = Some 5.2, val = Some 2.5\<rparr>)) =
       Inr ([Str ''Model solved successfully!''] # rest) \<and>
     [Str ''Generator '', IntV 3, Str '': Pg = '', FloatV 250] \<in> set rest \<and>
     [Str ''Generator '', IntV 3, Str '': Pg = '', FloatV 250, Str '' MW''] \<in> set rest \<and>
     [Str ''Bus '', IntV 1, Str '': Va = '', FloatV 0] \<in> set rest \<and>
     [Str ''Bus '', IntV 2, Str '': Va = '', FloatV 0] \<notin> set rest \<and>
     [Str ''Active Power Output (Pg) in MW:''] \<in> set rest"
proof -
  obtain m where m: "build GenD BD LN = Inr m"
    using build_tables by blast
  let ?vs = "(vars m)(Pg 3 \<mapsto> \<lparr>lb = Some 0, ub = Some 5.2, val = Some 2.5\<rparr>)"
  note v = built_vars_value [OF m distinct_tables(1) distinct_tables(3)]
  have b: "(1::int) \<in> set buses" "(2::int) \<in> set buses" "(3::int) \<in> set buses"
    by (simp_all add: buses_def)
  have decl: "\<forall>i\<in>set buses. ?vs (Pg i) \<noteq> None \<and> ?vs (Qg i) \<noteq> None \<and> ?vs (Va i) \<noteq> None"
    using built_declared [OF m] by simp
  have pg3: "?vs (Pg 3) = Some \<lparr>lb = Some 0, ub = Some 5.2, val = Some 2.5\<rparr>"
    by simp
  have va1: "?vs (Va 1) = Some \<lparr>lb = Some (- pi / 2), ub = Some (pi / 2), val = Some 0\<rparr>"
    by (simp add: v with_bounds_def)
  have va2: "?vs (Va 2) = Some \<lparr>lb = Some (- pi / 2), ub = Some (pi / 2), val = None\<rparr>"
    by (simp add: v with_bounds_def buses_def)
  from C7_report_after_solve [OF decl] obtain rest where
    r: "\<forall>tc. report tc ?vs =
        Inr ((if tc = optimal then [Str ''Model solved successfully!'']
              else [Str ''Model could not be solved. Termination condition:'', Str '' '', Cond tc]) # rest)" and
    mem: "\<forall>l. l \<in> set rest \<longleftrightarrow>
        l = [Str ''Active Power Output (Pg) in MW:''] \<or>
        l = [Str ''Reactive Power Output (Qg) in MVar:''] \<or>
        (\<exists>i\<in>set buses. \<exists>d v. ?vs (Pg i) = Some d \<and> val d = Some v \<and>
           (l = [Str ''Generator '', IntV i, Str '': Pg = '', FloatV (v * Sbase)] \<or>
            l = [Str ''Generator '', IntV i, Str '': Pg = '', FloatV (v * Sbase), Str '' MW''])) \<or>
        (\<exists>i\<in>set buses. \<exists>d v. ?vs (Va i) = Some d \<and> val d = Some v \<and>
           l = [Str ''Bus '', IntV i, Str '': Va = '', FloatV v]) \<or>
        (\<exists>i\<in>set buses. \<exists>d v. ?vs (Qg i) = Some d \<and> val d = Some v \<and>
           l = [Str ''Generator '', IntV i, Str '': Qg = '', FloatV (v * Sbase), Str '' MVar''])"
    by (elim exE conjE)
  show ?thesis
  proof (rule exI [of _ m], rule exI [of _ rest], intro conjI)
    show "build GenD BD LN = Inr m"
      by (rule m)
    show "report infeasible ?vs =
       Inr ([Str ''Model could not be solved. Termination condition:'', Str '' '', Cond infeasible] # rest)"
      using r [rule_format, of infeasible] by simp
    show "report optimal ?vs = Inr ([Str ''Model solved successfully!''] # rest)"
      using r [rule_format, of optimal] by simp
    have "\<exists>i\<in>set buses. \<exists>d v. ?vs (Pg i) = Some d \<and> val d = Some v \<and>
           ([Str ''Generator '', IntV 3, Str '': Pg = '', FloatV 250] =
              [Str ''Generator '', IntV i, Str '': Pg = '', FloatV (v * Sbase)] \<or>
            [Str ''Generator '', IntV 3, Str '': Pg = '', FloatV 250] =
              [Str ''Generator '', IntV i, Str '': Pg = '', FloatV (v * Sbase), Str '' MW''])"
      by (intro bexI [of _ 3] exI [of _ "\<lparr>lb = Some 0, ub = Some 5.2, val = Some 2.5\<rparr>"] exI [of _ "2.5"])
        (simp_all add: b Sbase_def)
    then show "[Str ''Generator '', IntV 3, Str '': Pg = '', FloatV 250] \<in> set rest"
      by (simp only: mem simp_thms)
    have "\<exists>i\<in>set buses. \<exists>d v. ?vs (Pg i) = Some d \<and> val d = Some v \<and>
           ([Str ''Generator '', IntV 3, Str '': Pg = '', FloatV 250, Str '' MW''] =
              [Str ''Generator '', IntV i, Str '': Pg = '', FloatV (v * Sbase)] \<or>
            [Str ''Generator '', IntV 3, Str '': Pg = '', FloatV 250, Str '' MW''] =
              [Str ''Generator '', IntV i, Str '': Pg = '', FloatV (v * Sbase), Str '' MW''])"
      by (intro bexI [of _ 3] exI [of _ "\<lparr>lb = Some 0, ub = Some 5.2, val = Some 2.5\<rparr>"] exI [of _ "2.5"])
        (simp_all add: b Sbase_def)
    then show "[Str ''Generator '', IntV 3, Str '': Pg = '', FloatV 250, Str '' MW''] \<in> set rest"
      by (simp only: mem simp_thms)
    have "\<exists>i\<in>set buses. \<exists>d v. ?vs (Va i) = Some d \<and> val d = Some v \<and>
           [Str ''Bus '', IntV 1, Str '': Va = '', FloatV 0] = [Str ''Bus '', IntV i, Str '': Va = '', FloatV v]"
      by (rule bexI [of _ 1]) (use va1 in \<open>simp_all add: b\<close>)
    then show "[Str ''Bus '', IntV 1, Str '': Va = '', FloatV 0] \<in> set rest"
      by (simp only: mem simp_thms)
    show "[Str ''Bus '', IntV 2, Str '': Va = '', FloatV 0] \<notin> set rest"
      using va2 by (auto simp add: mem simp del: fun_upd_apply)
    show "[Str ''Active Power Output (Pg) in MW:''] \<in> set rest"
      by (simp only: mem simp_thms)
  qed
qed

text \<open>
  C8, as the claim states it, fails: the lines after the status line are not all of the
  two forms \<open>Generator i: Pg = v MW\<close> and \<open>Bus i: Va = v\<close>. With the solver reporting
  \<open>optimal\<close> and only \<open>Pg[1] = 1.5\<close> and \<open>Qg[1] = 0.25\<close> carrying a value, the output has a
  \<open>Pg\<close> line without the unit, two header lines and a \<open>Qg\<close> line.
\<close>

theorem C8_other_lines_counterexample:
  "report optimal
     (declare_vars(Pg 1 \<mapsto> \<lparr>lb = None, ub = None, val = Some 1.5\<rparr>,
                   Qg 1 \<mapsto> \<lparr>lb = None, ub = None, val = Some 0.25\<rparr>)) =
   Inr [[Str ''Model solved successfully!''],
        [Str ''Generator '', IntV 1, Str '': Pg = '', FloatV 150],
        [Str ''Active Power Output (Pg) in MW:''],
        [Str ''Generator '', IntV 1, Str '': Pg = '', FloatV 150, Str '' MW''],
        [Str ''Reactive Power Output (Qg) in MVar:''],
        [Str ''Generator '', IntV 1, Str '': Qg = '', FloatV 25, Str '' MVar'']]"
  by (simp add: report_def buses_def declare_vars_def status_line_def pg_line_bare_def pg_line_def
      qg_line_def va_line_def pg_header_def qg_header_def new_var_def Sbase_def)

text \<open>
  C8, amended. Let the model hold \<open>Pg[i]\<close>, \<open>Qg[i]\<close> and \<open>Va[i]\<close> for every bus. The output
  is the status line, then for each bus whose \<open>Pg\<close> has a value the line
  \<open>Generator i: Pg = v\<close> without a unit, then for each bus whose \<open>Va\<close> has a value the line
  \<open>Bus i: Va = v\<close>, then the header \<open>Active Power Output (Pg) in MW:\<close>, then for each bus whose
  \<open>Pg\<close> has a value the line \<open>Generator i: Pg = v MW\<close>, then the header
  \<open>Reactive Power Output (Qg) in MVar:\<close>, then for each bus whose \<open>Qg\<close> has a value the
  line \<open>Generator i: Qg = v MVar\<close>. \<open>Pg\<close> and \<open>Qg\<close> are printed multiplied by \<open>Sbase\<close>, \<open>Va\<close>
  as it is. A loop prints a line for a bus exactly when the bus variable has a value;
  nothing is raised for a variable without one.
\<close>

theorem C8_report_lines:
  assumes "\<forall>i\<in>set buses. vs (Pg i) \<noteq> None \<and> vs (Qg i) \<noteq> None \<and> vs (Va i) \<noteq> None"
  shows "report tc vs =
      Inr (status_line tc # printed Pg pg_line_bare vs buses @ printed Va va_line vs buses @
           [Str ''Active Power Output (Pg) in MW:''] # printed Pg pg_line vs buses @
           [Str ''Reactive Power Output (Qg) in MVar:''] # printed Qg qg_line vs buses) \<and>
    (\<forall>X fmt l. l \<in> set (printed X fmt vs buses) \<longleftrightarrow>
       (\<exists>i\<in>set buses. \<exists>v. (\<exists>d. vs (X i) = Some d \<and> val d = Some v) \<and> l = fmt i v)) \<and>
    (\<forall>X fmt. length (printed X fmt vs buses) =
       length (filter (\<lambda>i. \<exists>d v. vs (X i) = Some d \<and> val d = Some v) buses)) \<and>
    (\<forall>i v. pg_line_bare i v = [Str ''Generator '', IntV i, Str '': Pg = '', FloatV (v * Sbase)] \<and>
           va_line i v = [Str ''Bus '', IntV i, Str '': Va = '', FloatV v] \<and>
           pg_line i v = [Str ''Generator '', IntV i, Str '': Pg = '', FloatV (v * Sbase), Str '' MW''] \<and>
           qg_line i v = [Str ''Generator '', IntV i, Str '': Qg = '', FloatV (v * Sbase), Str '' MVar''])"
proof (intro conjI)
  show "report tc vs =
      Inr (status_line tc # printed Pg pg_line_bare vs buses @ printed Va va_line vs buses @
           [Str ''Active Power Output (Pg) in MW:''] # printed Pg pg_line vs buses @
           [Str ''Reactive Power Output (Qg) in MVar:''] # printed Qg qg_line vs buses)"
    by (simp only: report_printed [OF assms] pg_header_def qg_header_def)
  have vo: "\<And>w v. (value_of vs w = Some v) = (\<exists>d. vs w = Some d \<and> val d = Some v)"
    by (simp add: value_of_def split: option.splits)
  show "\<forall>X fmt l. l \<in> set (printed X fmt vs buses) \<longleftrightarrow>
       (\<exists>i\<in>set buses. \<exists>v. (\<exists>d. vs (X i) = Some d \<and> val d = Some v) \<and> l = fmt i v)"
    by (simp only: mem_printed vo simp_thms)
  have len: "\<And>X fmt bs. length (printed X fmt vs bs) =
       length (filter (\<lambda>i. \<exists>d v. vs (X i) = Some d \<and> val d = Some v) bs)"
  proof -
    fix X fmt bs
    show "length (printed X fmt vs bs) =
       length (filter (\<lambda>i. \<exists>d v. vs (X i) = Some d \<and> val d = Some v) bs)"
      by (induction bs) (auto simp: printed_def value_of_def split: option.splits)
  qed
  show "\<forall>X fmt. length (printed X fmt vs buses) =
       length (filter (\<lambda>i. \<exists>d v. vs (X i) = Some d \<and> val d = Some v) buses)"
    by (simp only: len simp_thms)
  show "\<forall>i v. pg_line_bare i v = [Str ''Generator '', IntV i, Str '': Pg = '', FloatV (v * Sbase)] \<and>
           va_line i v = [Str ''Bus '', IntV i, Str '': Va = '', FloatV v] \<and>
           pg_line i v = [Str ''Generator '', IntV i, Str '': Pg = '', FloatV (v * Sbase), Str '' MW''] \<and>
           qg_line i v = [Str ''Generator '', IntV i, Str '': Qg = '', FloatV (v * Sbase), Str '' MVar'']"
    by (simp add: pg_line_bare_def va_line_def pg_line_def qg_line_def)
qed

theorem C8_report_lines_witness:
  "report infeasible (declare_vars(Va 1 \<mapsto> \<lparr>lb = None, ub = None, val = Some 0\<rparr>)) =
     Inr [status_line infeasible,
          [Str ''Bus '', IntV 1, Str '': Va = '', FloatV 0],
          [Str ''Active Power Output (Pg) in MW:''],
          [Str ''Reactive Power Output (Qg) in MVar:'']]"
proof -
  let ?vs = "declare_vars(Va 1 \<mapsto> \<lparr>lb = None, ub = None, val = Some 0\<rparr>)"
  have d: "\<forall>i\<in>set buses. ?vs (Pg i) \<noteq> None \<and> ?vs (Qg i) \<noteq> None \<and> ?vs (Va i) \<noteq> None"
    by (simp add: declare_vars_def)
  have p: "printed Pg pg_line_bare ?vs buses = []" "printed Pg pg_line ?vs buses = []"
    "printed Qg qg_line ?vs buses = []"
    "printed Va va_line ?vs buses = [[Str ''Bus '', IntV 1, Str '': Va = '', FloatV 0]]"
    by (simp_all add: printed_def value_of_def new_var_def declare_vars_def buses_def va_line_def)
  have "report infeasible ?vs =
      Inr (status_line infeasible # printed Pg pg_line_bare ?vs buses @ printed Va va_line ?vs buses @
           [Str ''Active Power Output (Pg) in MW:''] # printed Pg pg_line ?vs buses @
           [Str ''Reactive Power Output (Qg) in MVar:''] # printed Qg qg_line ?vs buses)"
    using C8_report_lines [OF d, of infeasible] by (rule conjunct1)
  then show ?thesis
    by (simp only: p append_Nil append_Cons)
qed

section \<open>A feasible point away from the slack values\<close>

lemma LN_rows: "((i, j), l) \<in> set LN \<Longrightarrow> ln_x l = 10 * ln_r l \<and> 0 < ln_r l"
  by (auto simp: LN_def)

lemma th_of_LN: "((i, j), l) \<in> set LN \<Longrightarrow> th_of l = arctan 10"
  using LN_rows [of i j l] by (simp add: th_of_def)

lemma z_of_LN:
  assumes "((i, j), l) \<in> set LN"
  shows "z_of l = ln_r l * sqrt 101"
proof -
  have x: "ln_x l = 10 * ln_r l" and r: "0 < ln_r l"
    using LN_rows [OF assms] by simp_all
  have "(ln_x l)\<^sup>2 + (ln_r l)\<^sup>2 = (ln_r l)\<^sup>2 * 101"
    by (simp add: x power2_eq_square)
  then have "z_of l = sqrt ((ln_r l)\<^sup>2 * 101)"
    by (simp add: z_of_def)
  also have "\<dots> = ln_r l * sqrt 101"
    using r by (simp add: real_sqrt_mult)
  finally show ?thesis .
qed

lemma cos_arctan_10: "cos (arctan 10) = 1 / sqrt 101"
  by (simp add: cos_arctan)

lemma sin_arctan_10: "sin (arctan 10) = 10 / sqrt 101"
  by (simp add: sin_arctan)

lemma holds_flow_cos:
  "zz \<noteq> 0 \<Longrightarrow>
   holds p (Eq (Ref (X i j)) (flow_expr cos Cos i j t zz)) \<longleftrightarrow>
     p (X i j) = ((p (V i))\<^sup>2 * cos t - p (V i) * p (V j) * cos (p (Va i) - p (Va j) + t)) / zz"
  by (simp add: flow_expr_def)

lemma holds_flow_sin:
  "zz \<noteq> 0 \<Longrightarrow>
   holds p (Eq (Ref (X i j)) (flow_expr sin Sin i j t zz)) \<longleftrightarrow>
     p (X i j) = ((p (V i))\<^sup>2 * sin t - p (V i) * p (V j) * sin (p (Va i) - p (Va j) + t)) / zz"
  by (simp add: flow_expr_def)

lemma sqrt_101_sq: "sqrt 101 * sqrt 101 = 101"
  by simp

lemma point_flow_34_P:
  "free_slack_point (Pij 3 4) =
     ((free_slack_point (V 3))\<^sup>2 * cos (arctan 10) -
      free_slack_point (V 3) * free_slack_point (V 4) *
        cos (free_slack_point (Va 3) - free_slack_point (Va 4) + arctan 10)) / (0.00297 * sqrt 101)"
proof -
  have "((0.0297::real)\<^sup>2 * (1 / sqrt 101) - 0.0297 * (0.3 * sqrt 101) * 1) / (0.00297 * sqrt 101) =
        0.0297\<^sup>2 / (0.00297 * (sqrt 101 * sqrt 101)) - 0.0297 * 0.3 / 0.00297"
    by (simp add: field_simps)
  also have "\<dots> = 297 / 101000 - 3"
    by (simp only: sqrt_101_sq) (simp add: power2_eq_square)
  finally show ?thesis
    by (simp add: cos_arctan_10)
qed

lemma point_flow_34_Q:
  "free_slack_point (Qij 3 4) =
     ((free_slack_point (V 3))\<^sup>2 * sin (arctan 10) -
      free_slack_point (V 3) * free_slack_point (V 4) *
        sin (free_slack_point (Va 3) - free_slack_point (Va 4) + arctan 10)) / (0.00297 * sqrt 101)"
proof -
  have "((0.0297::real)\<^sup>2 * (10 / sqrt 101)) / (0.00297 * sqrt 101) =
        0.0297\<^sup>2 * 10 / (0.00297 * (sqrt 101 * sqrt 101))"
    by (simp add: field_simps)
  also have "\<dots> = 297 / 10100"
    by (simp only: sqrt_101_sq) (simp add: power2_eq_square)
  finally show ?thesis
    by (simp add: sin_arctan_10)
qed

lemma point_flows:
  assumes "((i, j), l) \<in> set LN"
  shows "free_slack_point (Pij i j) =
     ((free_slack_point (V i))\<^sup>2 * cos (th_of l) -
      free_slack_point (V i) * free_slack_point (V j) *
        cos (free_slack_point (Va i) - free_slack_point (Va j) + th_of l)) / z_of l"
    and "free_slack_point (Qij i j) =
     ((free_slack_point (V i))\<^sup>2 * sin (th_of l) -
      free_slack_point (V i) * free_slack_point (V j) *
        sin (free_slack_point (Va i) - free_slack_point (Va j) + th_of l)) / z_of l"
proof -
  note th = th_of_LN [OF assms] and z = z_of_LN [OF assms]
  from assms consider
    (a) "i = 1 \<or> i = 2" |
    (c) "i = 3" "j = 4" "ln_r l = 0.00297" |
    (d) "i = 4" "j = 5"
    by (auto simp: LN_def)
  then have "free_slack_point (Pij i j) =
     ((free_slack_point (V i))\<^sup>2 * cos (arctan 10) -
      free_slack_point (V i) * free_slack_point (V j) *
        cos (free_slack_point (Va i) - free_slack_point (Va j) + arctan 10)) / (ln_r l * sqrt 101) \<and>
    free_slack_point (Qij i j) =
     ((free_slack_point (V i))\<^sup>2 * sin (arctan 10) -
      free_slack_point (V i) * free_slack_point (V j) *
        sin (free_slack_point (Va i) - free_slack_point (Va j) + arctan 10)) / (ln_r l * sqrt 101)"
  proof cases
    case a
    then show ?thesis by auto
  next
    case c
    show ?thesis
      unfolding c by (rule conjI [OF point_flow_34_P point_flow_34_Q])
  next
    case d
    then show ?thesis by (simp add: power2_eq_square)
  qed
  then show "free_slack_point (Pij i j) =
     ((free_slack_point (V i))\<^sup>2 * cos (th_of l) -
      free_slack_point (V i) * free_slack_point (V j) *
        cos (free_slack_point (Va i) - free_slack_point (Va j) + th_of l)) / z_of l"
    and "free_slack_point (Qij i j) =
     ((free_slack_point (V i))\<^sup>2 * sin (th_of l) -
      free_slack_point (V i) * free_slack_point (V j) *
        sin (free_slack_point (Va i) - free_slack_point (Va j) + th_of l)) / z_of l"
    by (simp_all only: th z)
qed

lemma z_of_LN_nonzero: "((i, j), l) \<in> set LN \<Longrightarrow> z_of l \<noteq> 0"
  using LN_rows [of i j l] by (simp add: z_of_zero)

lemma point_eq1:
  assumes m: "build GenD BD LN = Inr m" and c: "eq1 m k = Some c"
  shows "holds free_slack_point c"
proof -
  from m obtain vs where bc: "build_constraints GenD BD LN vs = Inr m"
    by (rule build_InrD)
  obtain i j where k: "k = (i, j)" by (cases k)
  from c obtain l where l: "map_of LN (i, j) = Some l" and
    ceq: "c = Eq (Ref (Pij i j)) (flow_expr cos Cos i j (th_of l) (z_of l))"
    unfolding k eq1_built [OF bc] by (auto split: if_splits option.splits)
  have mem: "((i, j), l) \<in> set LN"
    using l by (rule map_of_SomeD)
  show ?thesis
    unfolding ceq holds_flow_cos [OF z_of_LN_nonzero [OF mem]] by (rule point_flows(1) [OF mem])
qed

lemma point_eq2:
  assumes m: "build GenD BD LN = Inr m" and c: "eq2 m k = Some c"
  shows "holds free_slack_point c"
proof -
  from m obtain vs where bc: "build_constraints GenD BD LN vs = Inr m"
    by (rule build_InrD)
  obtain i j where k: "k = (i, j)" by (cases k)
  from c obtain l where l: "map_of LN (i, j) = Some l" and
    ceq: "c = Eq (Ref (Qij i j)) (flow_expr sin Sin i j (th_of l) (z_of l))"
    unfolding k eq2_built [OF bc] by (auto split: if_splits option.splits)
  have mem: "((i, j), l) \<in> set LN"
    using l by (rule map_of_SomeD)
  show ?thesis
    unfolding ceq holds_flow_sin [OF z_of_LN_nonzero [OF mem]] by (rule point_flows(2) [OF mem])
qed

lemma inflow_lists:
  "filter (\<lambda>j. cx_get (compute_cx LN) (j, 1) = Suc 0) buses = []"
  "filter (\<lambda>j. cx_get (compute_cx LN) (j, 2) = Suc 0) buses = [1]"
  "filter (\<lambda>j. cx_get (compute_cx LN) (j, 3) = Suc 0) buses = [1, 2]"
  "filter (\<lambda>j. cx_get (compute_cx LN) (j, 4) = Suc 0) buses = [3]"
  "filter (\<lambda>j. cx_get (compute_cx LN) (j, 5) = Suc 0) buses = [1, 4]"
  by (simp_all add: cx_LN_Suc LN_keys buses_def)

lemma point_eq3:
  assumes m: "build GenD BD LN = Inr m" and c: "eq3 m i = Some c"
  shows "holds free_slack_point c"
proof -
  from m obtain vs where bc: "build_constraints GenD BD LN vs = Inr m"
    by (rule build_InrD)
  from c have i: "i \<in> set buses" and r: "eq3_rule BD (compute_cx LN) i = Some c"
    unfolding eq3_built [OF bc] by (auto split: if_splits)
  from i consider "i = 1" | "i = 2" | "i = 3" | "i = 4" | "i = 5"
    by (auto simp: buses_def)
  then show ?thesis
    using r
    by cases (auto simp: eq3_rule_def inflow_def inflow_lists BD_def Sbase_def py_sum_def)
qed

lemma point_eq4:
  assumes m: "build GenD BD LN = Inr m" and c: "eq4 m i = Some c"
  shows "holds free_slack_point c"
proof -
  from m obtain vs where bc: "build_constraints GenD BD LN vs = Inr m"
    by (rule build_InrD)
  from c have i: "i \<in> set buses" and r: "eq4_rule BD (compute_cx LN) i = Some c"
    unfolding eq4_built [OF bc] by (auto split: if_splits)
  from i consider "i = 1" | "i = 2" | "i = 3" | "i = 4" | "i = 5"
    by (auto simp: buses_def)
  then show ?thesis
    using r
    by cases (auto simp: eq4_rule_def inflow_def inflow_lists BD_def Sbase_def py_sum_def)
qed

lemma angle_in_range:
  "- pi / 2 \<le> free_slack_point (Va i) \<and> free_slack_point (Va i) \<le> pi / 2"
proof -
  have "(1::real) \<le> pi / 2"
    using pi_ge_two by simp
  moreover have "- pi / 2 \<le> arctan 10" "arctan 10 \<le> pi / 2"
    using arctan_lbound [of 10] arctan_ubound [of 10] by simp_all
  moreover have "- pi / 2 \<le> (0::real)" "- pi / 2 \<le> (1::real)" "(0::real) \<le> pi / 2"
    using pi_ge_two by simp_all
  ultimately show ?thesis
    by simp
qed

lemma point_bounds:
  assumes m: "build GenD BD LN = Inr m" and d: "vars m v = Some d"
  shows "in_bounds d (free_slack_point v)"
proof -
  note bv = built_vars_value [OF m distinct_tables(1) distinct_tables(3), of v]
  show ?thesis
  proof (cases v)
    case OF
    then show ?thesis
      using d bv by (auto simp: in_bounds_def new_var_def split: if_splits)
  next
    case (Pij i j)
    have "map_of LN (i, j) = None \<or> (\<exists>l. ((i, j), l) \<in> set LN \<and> map_of LN (i, j) = Some l)"
      by (cases "map_of LN (i, j)") (auto dest: map_of_SomeD)
    then show ?thesis
      using d bv Pij
      by (auto simp: in_bounds_def new_var_def with_bounds_def LN_def Sbase_def split: if_splits)
  next
    case (Qij i j)
    then show ?thesis
      using d bv by (auto simp: in_bounds_def new_var_def split: if_splits)
  next
    case (Pg i)
    have "map_of GenD i = None \<or> (\<exists>g. (i, g) \<in> set GenD \<and> map_of GenD i = Some g)"
      by (cases "map_of GenD i") (auto dest: map_of_SomeD)
    then show ?thesis
      using d bv Pg
      by (auto simp: in_bounds_def new_var_def with_bounds_def GenD_def Sbase_def split: if_splits)
  next
    case (Qg i)
    have "map_of GenD i = None \<or> (\<exists>g. (i, g) \<in> set GenD \<and> map_of GenD i = Some g)"
      by (cases "map_of GenD i") (auto dest: map_of_SomeD)
    then show ?thesis
      using d bv Qg
      by (auto simp: in_bounds_def new_var_def with_bounds_def GenD_def Sbase_def split: if_splits)
  next
    case (Va i)
    then show ?thesis
      using d bv angle_in_range [of i]
      by (auto simp: in_bounds_def with_bounds_def simp del: free_slack_point.simps split: if_splits)
  next
    case (V i)
    then show ?thesis
      using d bv by (auto simp: in_bounds_def new_var_def split: if_splits)
  qed
qed

lemma point_feasible: "build GenD BD LN = Inr m \<Longrightarrow> feasible m free_slack_point"
  unfolding feasible_def
  using point_bounds point_eq1 point_eq2 point_eq3 point_eq4 by blast

text \<open>
  C6, as the claim states it, fails: \<open>model.V[1] = 1.0\<close> and \<open>model.Va[1] = 0\<close> only give
  the two variables a value. The built problem has a feasible point whose slack magnitude
  is \<open>0\<close> and whose slack angle is \<open>1\<close>.
\<close>

theorem C6_slack_not_fixed_counterexample:
  "case build GenD BD LN of
     Inl e \<Rightarrow> False
   | Inr m \<Rightarrow> feasible m free_slack_point \<and>
              free_slack_point (V 1) = 0 \<and> free_slack_point (Va 1) = 1"
proof -
  obtain m where m: "build GenD BD LN = Inr m"
    using build_tables by blast
  show ?thesis
    using m point_feasible [OF m] by simp
qed

text \<open>
  C6, amended. In the built model the slack bus has the initial values \<open>V[1] = 1.0\<close> and
  \<open>Va[1] = 0\<close>, and no other variable has a value. They are starting values, not
  constraints: \<open>V[1]\<close> has no bound, \<open>Va[1]\<close> has the bound of every angle, and some
  feasible point of the built problem has \<open>V[1] \<noteq> 1.0\<close> and \<open>Va[1] \<noteq> 0\<close>.
\<close>

theorem C6_slack_initial_values:
  "\<exists>m. build GenD BD LN = Inr m \<and>
     vars m (V 1) = Some \<lparr>lb = None, ub = None, val = Some 1\<rparr> \<and>
     vars m (Va 1) = Some \<lparr>lb = Some (- pi / 2), ub = Some (pi / 2), val = Some 0\<rparr> \<and>
     (\<forall>v d. vars m v = Some d \<longrightarrow> v \<noteq> V 1 \<longrightarrow> v \<noteq> Va 1 \<longrightarrow> val d = None) \<and>
     (\<exists>p. feasible m p \<and> p (V 1) \<noteq> 1 \<and> p (Va 1) \<noteq> 0)"
proof -
  obtain m where m: "build GenD BD LN = Inr m"
    using build_tables by blast
  note v = built_vars_value [OF m distinct_tables(1) distinct_tables(3)]
  show ?thesis
  proof (rule exI [of _ m], intro conjI)
    show "build GenD BD LN = Inr m"
      by (rule m)
    show "vars m (V 1) = Some \<lparr>lb = None, ub = None, val = Some 1\<rparr>"
      by (simp add: v new_var_def)
    show "vars m (Va 1) = Some \<lparr>lb = Some (- pi / 2), ub = Some (pi / 2), val = Some 0\<rparr>"
      by (simp add: v with_bounds_def)
    show "\<forall>v d. vars m v = Some d \<longrightarrow> v \<noteq> V 1 \<longrightarrow> v \<noteq> Va 1 \<longrightarrow> val d = None"
    proof (intro allI impI)
      fix w d assume "vars m w = Some d" "w \<noteq> V 1" "w \<noteq> Va 1"
      then show "val d = None"
        using v [of w]
        by (cases w) (auto simp: new_var_def with_bounds_def split: if_splits option.splits)
    qed
    show "\<exists>p. feasible m p \<and> p (V 1) \<noteq> 1 \<and> p (Va 1) \<noteq> 0"
      using point_feasible [OF m] by (intro exI [of _ free_slack_point]) simp
  qed
qed

theorem C6_slack_initial_values_witness:
  "\<exists>m d. build GenD BD LN = Inr m \<and> vars m (V 1) = Some d \<and> val d = Some 1 \<and> lb d = None \<and> ub d = None"
proof -
  from C6_slack_initial_values obtain m where
    m: "build GenD BD LN = Inr m" and
    s: "vars m (V 1) = Some \<lparr>lb = None, ub = None, val = Some 1\<rparr>"
    by (elim exE conjE)
  show ?thesis
    using m s by simp
qed

end
